theory Spec2Isabelle
  imports Main "HOL-Library.Word"
begin

unbundle bit_operations_syntax

section \<open>Common types\<close>

type_synonym u32 = "32 word"

text \<open>
  Modelled from the spec: \<^verbatim>\<open>EFM_ASSERT\<close> comes from the vendor header
  \<^verbatim>\<open>em_assert.h\<close>, which is not part of the sources. The specification treats a
  failed assertion as fatal: the system halts. A function that can fail an assertion
  therefore returns \<open>fault + state\<close>, with \<open>Inl\<close> naming the assertion that halted
  the system. The same type carries the places where the C code has no defined
  behaviour (an array index outside the array, signed overflow, a shift by the word
  width or more).
\<close>

datatype fault =
    EFM_ASSERT_sleep_block_mode
  | EFM_ASSERT_sleep_unblock_mode
  | EFM_ASSERT_i2c_ack_sm
  | EFM_ASSERT_i2c_nack_sm
  | EFM_ASSERT_i2c_stop_sm
  | EFM_ASSERT_i2c_start
  | UB_array_index
  | UB_signed_overflow
  | UB_shift_count

text \<open>Sequencing of fallible steps: the first fault ends the run.\<close>

definition and_then :: "(fault + 'a) \<Rightarrow> ('a \<Rightarrow> fault + 'b) \<Rightarrow> fault + 'b" where
  "and_then r f = (case r of Inl e \<Rightarrow> Inl e | Inr x \<Rightarrow> f x)"

fun repeated :: "nat \<Rightarrow> ('s \<Rightarrow> fault + 's) \<Rightarrow> 's \<Rightarrow> fault + 's" where
  "repeated 0 f s = Inr s"
| "repeated (Suc n) f s = and_then (f s) (repeated n f)"

section \<open>Event scheduler (scheduler.c)\<close>

text \<open>
  The scheduler's state is the static \<^verbatim>\<open>uint32_t event_scheduled\<close>. The critical
  sections make each function atomic; in the sequential model each function is one
  step on the word.
\<close>

definition scheduler_open :: "u32 \<Rightarrow> u32" where
  "scheduler_open event_scheduled = 0"

definition add_scheduled_event :: "u32 \<Rightarrow> u32 \<Rightarrow> u32" where
  "add_scheduled_event event event_scheduled = event_scheduled OR event"

definition remove_scheduled_event :: "u32 \<Rightarrow> u32 \<Rightarrow> u32" where
  "remove_scheduled_event event event_scheduled = event_scheduled AND NOT event"

definition get_scheduled_events :: "u32 \<Rightarrow> u32" where
  "get_scheduled_events event_scheduled = event_scheduled"

section \<open>Sleep-mode arbiter (sleep_routines.c, sleep_routines.h)\<close>

definition EM0 :: u32 where "EM0 = 0"
definition EM1 :: u32 where "EM1 = 1"
definition EM2 :: u32 where "EM2 = 2"
definition EM3 :: u32 where "EM3 = 3"
definition EM4 :: u32 where "EM4 = 4"
definition MAX_ENERGY_MODES :: nat where "MAX_ENERGY_MODES = 5"

text \<open>The C type \<^verbatim>\<open>int\<close> is 32 bits wide on the target.\<close>

definition INT_MAX :: int where "INT_MAX = 2147483647"
definition INT_MIN :: int where "INT_MIN = - 2147483648"

text \<open>
  The state is the static array \<^verbatim>\<open>int lowest_energy_mode[MAX_ENERGY_MODES]\<close>, a list
  of \<open>MAX_ENERGY_MODES\<close> integers.
\<close>

definition sleep_open :: "int list \<Rightarrow> int list" where
  "sleep_open lowest_energy_mode =
     fold (\<lambda>i tbl. tbl[i := 0]) [0..<MAX_ENERGY_MODES] lowest_energy_mode"

definition sleep_block_mode :: "u32 \<Rightarrow> int list \<Rightarrow> fault + int list" where
  "sleep_block_mode EM lowest_energy_mode =
     (if \<not> unat EM < MAX_ENERGY_MODES then Inl UB_array_index
      else if lowest_energy_mode ! unat EM = INT_MAX then Inl UB_signed_overflow
      else
        let tbl = lowest_energy_mode[unat EM := lowest_energy_mode ! unat EM + 1]
        in if tbl ! unat EM < 5 then Inr tbl else Inl EFM_ASSERT_sleep_block_mode)"

definition sleep_unblock_mode :: "u32 \<Rightarrow> int list \<Rightarrow> fault + int list" where
  "sleep_unblock_mode EM lowest_energy_mode =
     (if \<not> unat EM < MAX_ENERGY_MODES then Inl UB_array_index
      else if lowest_energy_mode ! unat EM = INT_MIN then Inl UB_signed_overflow
      else
        let tbl = lowest_energy_mode[unat EM := lowest_energy_mode ! unat EM - 1]
        in if tbl ! unat EM \<ge> 0 then Inr tbl else Inl EFM_ASSERT_sleep_unblock_mode)"

text \<open>
  The loop body of \<^verbatim>\<open>current_block_energy_mode\<close>, on the pair of the loop's
  variables \<^verbatim>\<open>done\<close> and \<^verbatim>\<open>selected_em\<close>.
\<close>

definition scan_step :: "int list \<Rightarrow> nat \<Rightarrow> bool \<times> u32 \<Rightarrow> bool \<times> u32" where
  "scan_step lowest_energy_mode i st =
     (case st of (done, selected_em) \<Rightarrow>
        if \<not> done then
          (if lowest_energy_mode ! i > 0 then (True, of_nat i) else (done, selected_em))
        else (done, selected_em))"

definition current_block_energy_mode :: "int list \<Rightarrow> u32" where
  "current_block_energy_mode lowest_energy_mode =
     snd (fold (scan_step lowest_energy_mode) [0..<MAX_ENERGY_MODES] (False, EM4))"

text \<open>
  The states the arbiter can be in: an array of \<open>MAX_ENERGY_MODES\<close> counters, none
  negative and none above the bound checked by \<^verbatim>\<open>sleep_block_mode\<close>.
\<close>

definition block_counts :: "int list \<Rightarrow> bool" where
  "block_counts tbl \<longleftrightarrow>
     length tbl = MAX_ENERGY_MODES \<and> list_all (\<lambda>c. 0 \<le> c \<and> c < 5) tbl"

section \<open>I2C transaction engine (i2c.c, i2c.h)\<close>

datatype DEFINED_STATES =
    initialize
  | send_register
  | request_read
  | read_data
  | write_data
  | send_stop
  | end_process

datatype I2C_COMM_METHOD_TypeDef = I2C_READ | I2C_WRITE

definition I2C_EM :: u32 where "I2C_EM = EM2"
definition I2C_R :: u32 where "I2C_R = 1"
definition I2C_W :: u32 where "I2C_W = 0"

text \<open>
  A \<^verbatim>\<open>uint32_t*\<close> is the address of a caller-owned word; the memory holding these
  words is a function from addresses to words.
\<close>

type_synonym addr = nat

record I2C_STATE_MACHINE_STRUCT =
  current_state :: DEFINED_STATES
  which_i2c :: bool
  device_address :: u32
  register_address :: u32
  num_bytes :: u32
  finished_callback :: u32
  comm_method :: I2C_COMM_METHOD_TypeDef
  busy :: bool
  data :: addr
  byte_counter :: u32
  num_register_bytes :: u32
  register_byte_counter :: u32

text \<open>
  \<^verbatim>\<open>I2C_START_STRUCT\<close> of i2c.h. Its fields carry the prefix \<open>start_\<close>, since the
  state machine's record already uses the plain names.
\<close>

record I2C_START_STRUCT =
  start_which_i2c :: bool
  start_comm_method :: I2C_COMM_METHOD_TypeDef
  start_device_address :: u32
  start_register_address :: u32
  start_num_bytes :: u32
  start_finished_callback :: u32
  start_data :: addr
  start_num_register_bytes :: u32

text \<open>
  Modelled from the spec: the peripheral type \<^verbatim>\<open>I2C_TypeDef\<close> and the command and
  interrupt-flag constants come from the vendor header \<^verbatim>\<open>em_i2c.h\<close>, which is not
  part of the sources. The commands and flags the engine uses are distinct symbolic
  values. Of the peripheral, the model keeps what the engine reads (the receive
  buffer \<^verbatim>\<open>RXDATA\<close> and whether \<^verbatim>\<open>STATE\<close> shows an idle bus) and the sequence of
  its writes to \<^verbatim>\<open>CMD\<close> and \<^verbatim>\<open>TXDATA\<close>, oldest first: this sequence is what the
  hardware puts on the bus.
\<close>

datatype i2c_cmd = I2C_CMD_START | I2C_CMD_STOP | I2C_CMD_ACK | I2C_CMD_NACK

datatype i2c_if = I2C_IF_ACK | I2C_IF_NACK | I2C_IF_RXDATAV | I2C_IF_MSTOP

datatype reg_write = CMD i2c_cmd | TXDATA u32

record I2C_TypeDef =
  RXDATA :: u32
  STATE_IDLE :: bool
  writes :: "reg_write list"

definition write_reg :: "reg_write \<Rightarrow> I2C_TypeDef \<Rightarrow> I2C_TypeDef" where
  "write_reg w i2cx = i2cx\<lparr>writes := writes i2cx @ [w]\<rparr>"

text \<open>
  The byte selection that \<^verbatim>\<open>i2c_ack_sm\<close> writes out four times: with
  \<^verbatim>\<open>which_byte = counter - 1\<close> (unsigned, so it wraps at counter 0), the mask
  \<^verbatim>\<open>0xFF << (8 * which_byte)\<close> is applied and the result shifted back down. A shift
  count of 32 or more has no defined behaviour in C.
\<close>

definition select_byte :: "u32 \<Rightarrow> u32 \<Rightarrow> fault + u32" where
  "select_byte data_copy counter =
     (let which_byte = counter - 1;
          shift = 8 * which_byte
      in if 32 \<le> unat shift then Inl UB_shift_count
         else Inr (drop_bit (unat shift) (data_copy AND push_bit (unat shift) 0xFF)))"

text \<open>
  The payload block of \<^verbatim>\<open>i2c_ack_sm\<close> (lines 80-88, 99-107 and 125-133 of i2c.c are
  the same statements): select the byte of \<^verbatim>\<open>*i2c_sm->data\<close> numbered by
  \<^verbatim>\<open>byte_counter\<close>, write it to \<^verbatim>\<open>TXDATA\<close>, decrement \<^verbatim>\<open>byte_counter\<close>.
\<close>

definition send_payload_byte ::
  "I2C_STATE_MACHINE_STRUCT \<Rightarrow> I2C_TypeDef \<Rightarrow> (addr \<Rightarrow> u32)
     \<Rightarrow> fault + (I2C_STATE_MACHINE_STRUCT \<times> I2C_TypeDef)" where
  "send_payload_byte i2c_sm i2cx mem =
     and_then (select_byte (mem (data i2c_sm)) (byte_counter i2c_sm))
       (\<lambda>b. Inr (i2c_sm\<lparr>byte_counter := byte_counter i2c_sm - 1\<rparr>,
                 write_reg (TXDATA b) i2cx))"

definition i2c_ack_sm ::
  "I2C_STATE_MACHINE_STRUCT \<Rightarrow> I2C_TypeDef \<Rightarrow> (addr \<Rightarrow> u32)
     \<Rightarrow> fault + (I2C_STATE_MACHINE_STRUCT \<times> I2C_TypeDef)" where
  "i2c_ack_sm i2c_sm i2cx mem =
     (case current_state i2c_sm of
        initialize \<Rightarrow>
          (let sm1 = i2c_sm\<lparr>current_state := send_register\<rparr> in
           if register_byte_counter sm1 > 0 then
             and_then (select_byte (register_address sm1) (register_byte_counter sm1))
               (\<lambda>b. let sm2 = sm1\<lparr>register_byte_counter := register_byte_counter sm1 - 1\<rparr>;
                        sm3 = (if register_byte_counter sm2 > 0
                               then sm2\<lparr>current_state := initialize\<rparr> else sm2)
                    in Inr (sm3, write_reg (TXDATA b) i2cx))
           else send_payload_byte sm1 i2cx mem)
      | send_register \<Rightarrow>
          if comm_method i2c_sm = I2C_READ then
            Inr (i2c_sm\<lparr>current_state := request_read\<rparr>,
                 write_reg (TXDATA (push_bit 1 (device_address i2c_sm) OR I2C_R))
                   (write_reg (CMD I2C_CMD_START) i2cx))
          else send_payload_byte (i2c_sm\<lparr>current_state := write_data\<rparr>) i2cx mem
      | request_read \<Rightarrow>
          if comm_method i2c_sm = I2C_READ
          then Inr (i2c_sm\<lparr>current_state := read_data\<rparr>, i2cx)
          else Inl EFM_ASSERT_i2c_ack_sm
      | read_data \<Rightarrow> Inl EFM_ASSERT_i2c_ack_sm
      | write_data \<Rightarrow>
          if comm_method i2c_sm \<noteq> I2C_WRITE then Inl EFM_ASSERT_i2c_ack_sm
          else if byte_counter i2c_sm > 0 then send_payload_byte i2c_sm i2cx mem
          else Inr (i2c_sm\<lparr>current_state := send_stop\<rparr>, write_reg (CMD I2C_CMD_STOP) i2cx)
      | send_stop \<Rightarrow> Inl EFM_ASSERT_i2c_ack_sm
      | end_process \<Rightarrow> Inl EFM_ASSERT_i2c_ack_sm)"

definition i2c_nack_sm ::
  "I2C_STATE_MACHINE_STRUCT \<Rightarrow> I2C_TypeDef
     \<Rightarrow> fault + (I2C_STATE_MACHINE_STRUCT \<times> I2C_TypeDef)" where
  "i2c_nack_sm i2c_sm i2cx =
     (if current_state i2c_sm \<noteq> request_read then Inl EFM_ASSERT_i2c_nack_sm
      else Inr (i2c_sm,
                write_reg (TXDATA (push_bit 1 (device_address i2c_sm) OR I2C_R))
                  (write_reg (CMD I2C_CMD_START) i2cx)))"

text \<open>
  \<^verbatim>\<open>i2c_stop_sm\<close> touches the state machine, the scheduler's word and the sleep
  arbiter's table.
\<close>

definition i2c_stop_sm ::
  "I2C_STATE_MACHINE_STRUCT \<Rightarrow> u32 \<Rightarrow> int list
     \<Rightarrow> fault + (I2C_STATE_MACHINE_STRUCT \<times> u32 \<times> int list)" where
  "i2c_stop_sm i2c_sm event_scheduled lowest_energy_mode =
     (if current_state i2c_sm \<noteq> send_stop then Inl EFM_ASSERT_i2c_stop_sm
      else
        let sm1 = i2c_sm\<lparr>current_state := end_process\<rparr>;
            ev = add_scheduled_event (finished_callback sm1) event_scheduled;
            sm2 = sm1\<lparr>busy := False\<rparr>
        in and_then (sleep_unblock_mode I2C_EM lowest_energy_mode)
             (\<lambda>tbl. Inr (sm2, ev, tbl)))"

definition i2c_rxdatav_sm ::
  "I2C_STATE_MACHINE_STRUCT \<Rightarrow> I2C_TypeDef \<Rightarrow> (addr \<Rightarrow> u32)
     \<Rightarrow> I2C_STATE_MACHINE_STRUCT \<times> I2C_TypeDef \<times> (addr \<Rightarrow> u32)" where
  "i2c_rxdatav_sm i2c_sm i2cx mem =
     (let rxdata = RXDATA i2cx in
      if byte_counter i2c_sm > 0 then
        (let mem1 = mem(data i2c_sm := push_bit 8 (mem (data i2c_sm)));
             mem2 = mem1(data i2c_sm := mem1 (data i2c_sm) OR rxdata)
         in (i2c_sm\<lparr>byte_counter := byte_counter i2c_sm - 1\<rparr>,
             write_reg (CMD I2C_CMD_ACK) i2cx, mem2))
      else
        (i2c_sm\<lparr>current_state := send_stop\<rparr>,
         write_reg (CMD I2C_CMD_STOP) (write_reg (CMD I2C_CMD_NACK) i2cx), mem))"

text \<open>
  The hardware delivers one byte per byte-received interrupt: the receive buffer
  \<^verbatim>\<open>RXDATA\<close> holds an 8-bit value, read as a \<^verbatim>\<open>uint32_t\<close>. \<open>receive\<close> is the
  sequence of byte-received interrupts for a list of bytes.
\<close>

fun receive ::
  "8 word list \<Rightarrow> I2C_STATE_MACHINE_STRUCT \<times> I2C_TypeDef \<times> (addr \<Rightarrow> u32)
     \<Rightarrow> I2C_STATE_MACHINE_STRUCT \<times> I2C_TypeDef \<times> (addr \<Rightarrow> u32)" where
  "receive [] st = st"
| "receive (b # bs) (i2c_sm, i2cx, mem) =
     receive bs (i2c_rxdatav_sm i2c_sm (i2cx\<lparr>RXDATA := ucast b\<rparr>) mem)"

text \<open>The value of a list of bytes read as one big-endian number.\<close>

fun big_endian :: "8 word list \<Rightarrow> nat" where
  "big_endian [] = 0"
| "big_endian (b # bs) = unat b * 256 ^ length bs + big_endian bs"

subsection \<open>The whole system: both buses, scheduler, sleep arbiter, caller memory\<close>

record system =
  i2c0_state_machine :: I2C_STATE_MACHINE_STRUCT
  i2c1_state_machine :: I2C_STATE_MACHINE_STRUCT
  I2C0 :: I2C_TypeDef
  I2C1 :: I2C_TypeDef
  event_scheduled :: u32
  lowest_energy_mode :: "int list"
  mem :: "addr \<Rightarrow> u32"

text \<open>
  A bus is selected as in \<^verbatim>\<open>i2c_start\<close> and \<^verbatim>\<open>i2c_isr\<close>: \<open>False\<close> is I2C0 with
  \<^verbatim>\<open>i2c0_state_machine\<close>, \<open>True\<close> is I2C1 with \<^verbatim>\<open>i2c1_state_machine\<close>.
\<close>

definition get_sm :: "bool \<Rightarrow> system \<Rightarrow> I2C_STATE_MACHINE_STRUCT" where
  "get_sm which s = (if which then i2c1_state_machine s else i2c0_state_machine s)"

definition get_i2cx :: "bool \<Rightarrow> system \<Rightarrow> I2C_TypeDef" where
  "get_i2cx which s = (if which then I2C1 s else I2C0 s)"

definition set_sm :: "bool \<Rightarrow> I2C_STATE_MACHINE_STRUCT \<Rightarrow> system \<Rightarrow> system" where
  "set_sm which v s = (if which then s\<lparr>i2c1_state_machine := v\<rparr> else s\<lparr>i2c0_state_machine := v\<rparr>)"

definition set_i2cx :: "bool \<Rightarrow> I2C_TypeDef \<Rightarrow> system \<Rightarrow> system" where
  "set_i2cx which v s = (if which then s\<lparr>I2C1 := v\<rparr> else s\<lparr>I2C0 := v\<rparr>)"

text \<open>
  \<^verbatim>\<open>i2c_isr\<close>: \<open>int_flag\<close> is the value of \<^verbatim>\<open>i2cx->IF & i2cx->IEN\<close> at entry, as the
  set of flags it holds. Writing it to \<^verbatim>\<open>IFC\<close> clears these flags in the hardware,
  so the assertions that re-read \<^verbatim>\<open>IF\<close> hold. Each of the four \<^verbatim>\<open>if\<close> statements
  of the source is one definition; \<open>i2c_isr\<close> runs them in the order of the source.
\<close>

definition isr_ack :: "bool \<Rightarrow> i2c_if set \<Rightarrow> system \<Rightarrow> fault + system" where
  "isr_ack which int_flag s =
     (if I2C_IF_ACK \<in> int_flag then
        and_then (i2c_ack_sm (get_sm which s) (get_i2cx which s) (mem s))
          (\<lambda>(sm, x). Inr (set_i2cx which x (set_sm which sm s)))
      else Inr s)"

definition isr_nack :: "bool \<Rightarrow> i2c_if set \<Rightarrow> system \<Rightarrow> fault + system" where
  "isr_nack which int_flag s =
     (if I2C_IF_NACK \<in> int_flag then
        and_then (i2c_nack_sm (get_sm which s) (get_i2cx which s))
          (\<lambda>(sm, x). Inr (set_i2cx which x (set_sm which sm s)))
      else Inr s)"

definition isr_rxdatav :: "bool \<Rightarrow> i2c_if set \<Rightarrow> system \<Rightarrow> fault + system" where
  "isr_rxdatav which int_flag s =
     (if I2C_IF_RXDATAV \<in> int_flag then
        (case i2c_rxdatav_sm (get_sm which s) (get_i2cx which s) (mem s) of
           (sm, x, m) \<Rightarrow> Inr (set_i2cx which x (set_sm which sm (s\<lparr>mem := m\<rparr>))))
      else Inr s)"

definition isr_mstop :: "bool \<Rightarrow> i2c_if set \<Rightarrow> system \<Rightarrow> fault + system" where
  "isr_mstop which int_flag s =
     (if I2C_IF_MSTOP \<in> int_flag then
        and_then (i2c_stop_sm (get_sm which s) (event_scheduled s) (lowest_energy_mode s))
          (\<lambda>(sm, ev, tbl).
             Inr (set_sm which sm (s\<lparr>event_scheduled := ev, lowest_energy_mode := tbl\<rparr>)))
      else Inr s)"

definition i2c_isr :: "bool \<Rightarrow> i2c_if set \<Rightarrow> system \<Rightarrow> fault + system" where
  "i2c_isr which int_flag s =
     and_then (isr_ack which int_flag s) (\<lambda>s1.
     and_then (isr_nack which int_flag s1) (\<lambda>s2.
     and_then (isr_rxdatav which int_flag s2) (\<lambda>s3.
     isr_mstop which int_flag s3)))"

text \<open>
  \<^verbatim>\<open>i2c_start\<close>. The loop \<^verbatim>\<open>while(i2cx_state_machine->busy);\<close> has an empty body:
  while the flag is set and no interrupt handler clears it, the loop does not end.
  \<open>None\<close> is the call that never leaves the loop.
\<close>

partial_function (option) wait_while_busy :: "bool \<Rightarrow> system \<Rightarrow> system option" where
  "wait_while_busy which s =
     (if busy (get_sm which s) then wait_while_busy which s else Some s)"

declare wait_while_busy.simps [code]

text \<open>The statements of \<^verbatim>\<open>i2c_start\<close> after the loop.\<close>

definition i2c_start_body :: "I2C_START_STRUCT \<Rightarrow> system \<Rightarrow> fault + system" where
  "i2c_start_body i2c_start s =
     (let which = start_which_i2c i2c_start;
          i2cx = get_i2cx which s
      in
        if \<not> STATE_IDLE i2cx then Inl EFM_ASSERT_i2c_start
        else
          and_then (sleep_block_mode I2C_EM (lowest_energy_mode s))
            (\<lambda>tbl.
               let sm = (get_sm which s)
                     \<lparr>busy := True,
                      current_state := initialize,
                      which_i2c := start_which_i2c i2c_start,
                      device_address := start_device_address i2c_start,
                      register_address := start_register_address i2c_start,
                      num_bytes := start_num_bytes i2c_start,
                      finished_callback := start_finished_callback i2c_start,
                      comm_method := start_comm_method i2c_start,
                      data := start_data i2c_start,
                      byte_counter := start_num_bytes i2c_start,
                      num_register_bytes := start_num_register_bytes i2c_start,
                      register_byte_counter := start_num_register_bytes i2c_start\<rparr>;
                   x = write_reg (TXDATA (push_bit 1 (start_device_address i2c_start) OR I2C_W))
                         (write_reg (CMD I2C_CMD_START) i2cx)
               in Inr (set_i2cx which x (set_sm which sm (s\<lparr>lowest_energy_mode := tbl\<rparr>)))))"

definition i2c_start :: "I2C_START_STRUCT \<Rightarrow> system \<Rightarrow> (fault + system) option" where
  "i2c_start i2c_start_struct s =
     map_option (i2c_start_body i2c_start_struct)
       (wait_while_busy (start_which_i2c i2c_start_struct) s)"

text \<open>
  Runs of the engine. An event is a call of \<^verbatim>\<open>i2c_start\<close> (with the bus state the
  hardware shows at that moment) or an interrupt of one bus (with the flags raised and
  the byte in the receive buffer). The interrupt handlers run to completion, and the
  statements of \<^verbatim>\<open>i2c_start\<close> after its loop run without an interrupt in between.
\<close>

datatype event =
    Start I2C_START_STRUCT bool
  | Interrupt bool "i2c_if set" "8 word"

definition sys_step :: "system \<Rightarrow> event \<Rightarrow> (fault + system) option" where
  "sys_step s e =
     (case e of
        Start req idle \<Rightarrow>
          i2c_start req
            (set_i2cx (start_which_i2c req)
               ((get_i2cx (start_which_i2c req) s)\<lparr>STATE_IDLE := idle\<rparr>) s)
      | Interrupt which int_flag rx \<Rightarrow>
          Some (i2c_isr which int_flag
            (set_i2cx which ((get_i2cx which s)\<lparr>RXDATA := ucast rx\<rparr>) s)))"

fun run :: "system \<Rightarrow> event list \<Rightarrow> (fault + system) option" where
  "run s [] = Some (Inr s)"
| "run s (e # es) =
     (case sys_step s e of
        None \<Rightarrow> None
      | Some (Inl f) \<Rightarrow> Some (Inl f)
      | Some (Inr s') \<Rightarrow> run s' es)"

subsection \<open>Concrete states and requests used to run the engine\<close>

text \<open>
  The statics as the C start-up code leaves them (all zero, so the first enumerator of
  each enumeration), a peripheral that has written nothing yet, and the system after
  \<^verbatim>\<open>scheduler_open\<close> and \<^verbatim>\<open>sleep_open\<close>, with a given caller memory.
\<close>

definition zero_sm :: I2C_STATE_MACHINE_STRUCT where
  "zero_sm =
     \<lparr>current_state = initialize, which_i2c = False, device_address = 0,
      register_address = 0, num_bytes = 0, finished_callback = 0,
      comm_method = I2C_READ, busy = False, data = 0, byte_counter = 0,
      num_register_bytes = 0, register_byte_counter = 0\<rparr>"

definition quiet_bus :: I2C_TypeDef where
  "quiet_bus = \<lparr>RXDATA = 0, STATE_IDLE = True, writes = []\<rparr>"

definition opened_system :: "(addr \<Rightarrow> u32) \<Rightarrow> system" where
  "opened_system m =
     \<lparr>i2c0_state_machine = zero_sm, i2c1_state_machine = zero_sm,
      I2C0 = quiet_bus, I2C1 = quiet_bus,
      event_scheduled = 0, lowest_energy_mode = [0, 0, 0, 0, 0], mem = m\<rparr>"

text \<open>
  A request as the sensor drivers build it: bus, direction, device address, register
  address and its length in bytes, address of the caller's word, payload length in
  bytes, completion event.
\<close>

definition request ::
  "bool \<Rightarrow> I2C_COMM_METHOD_TypeDef \<Rightarrow> u32 \<Rightarrow> u32 \<Rightarrow> u32 \<Rightarrow> addr \<Rightarrow> u32 \<Rightarrow> u32
     \<Rightarrow> I2C_START_STRUCT" where
  "request which method dev reg reg_bytes a bytes cb =
     \<lparr>start_which_i2c = which, start_comm_method = method, start_device_address = dev,
      start_register_address = reg, start_num_bytes = bytes,
      start_finished_callback = cb, start_data = a, start_num_register_bytes = reg_bytes\<rparr>"

text \<open>
  The state machine of a read of \<open>n\<close> bytes of register \<^verbatim>\<open>0xE7\<close> once the read
  address has been acknowledged: the bytes arrive next.
\<close>

definition reading :: "u32 \<Rightarrow> I2C_STATE_MACHINE_STRUCT" where
  "reading n =
     \<lparr>current_state = read_data, which_i2c = False, device_address = 0x40,
      register_address = 0xE7, num_bytes = n, finished_callback = 0x100,
      comm_method = I2C_READ, busy = True, data = 0, byte_counter = n,
      num_register_bytes = 1, register_byte_counter = 0\<rparr>"

text \<open>
  Scenario A of the specification: a 1-byte write of the caller's word at address \<open>a\<close>
  to the 1-byte register \<^verbatim>\<open>0xE6\<close> of device \<^verbatim>\<open>0x40\<close> on bus \<open>w\<close>, followed by the
  three acknowledge interrupts of the address byte, the register byte and the payload
  byte.
\<close>

definition scenario_A :: "bool \<Rightarrow> addr \<Rightarrow> u32 \<Rightarrow> event list" where
  "scenario_A w a cb =
     [Start (request w I2C_WRITE 0x40 0xE6 1 a 1 cb) True,
      Interrupt w {I2C_IF_ACK} 0, Interrupt w {I2C_IF_ACK} 0, Interrupt w {I2C_IF_ACK} 0]"

text \<open>The same write on I2C0 with completion event \<^verbatim>\<open>0x100\<close>, and the interrupts that finish it.\<close>

definition write_3B :: I2C_START_STRUCT where
  "write_3B = request False I2C_WRITE 0x40 0xE6 1 0 1 0x100"

definition write_3B_interrupts :: "event list" where
  "write_3B_interrupts =
     [Interrupt False {I2C_IF_ACK} 0, Interrupt False {I2C_IF_ACK} 0,
      Interrupt False {I2C_IF_ACK} 0, Interrupt False {I2C_IF_MSTOP} 0]"

text \<open>Events that do not run the stop handler.\<close>

definition no_mstop :: "event \<Rightarrow> bool" where
  "no_mstop e = (case e of Start _ _ \<Rightarrow> True | Interrupt _ fl _ \<Rightarrow> I2C_IF_MSTOP \<notin> fl)"

section \<open>Properties of the event scheduler\<close>

lemma add_scheduled_event_idem: "add_scheduled_event E (add_scheduled_event E s) = add_scheduled_event E s"
  by (simp add: add_scheduled_event_def or.assoc)

lemma add_scheduled_event_funpow: "(add_scheduled_event E ^^ Suc n) s = add_scheduled_event E s"
  by (induction n) (simp_all add: add_scheduled_event_idem)

text \<open>
  Claim C8. For every event bitmask \<open>E\<close> and every scheduler state: posting \<open>E\<close> any
  number of times (at least once) leaves the same pending bitmask as posting it once,
  and that bitmask contains \<open>E\<close>; after clearing \<open>E\<close> the pending bitmask has no bit
  of \<open>E\<close>; posting and clearing each leave all bits outside \<open>E\<close> unchanged.
\<close>

theorem scheduler_post_idempotent_clear: "(add_scheduled_event E ^^ Suc n) s = add_scheduled_event E s
  \<and> get_scheduled_events (add_scheduled_event E s) AND E = E
  \<and> get_scheduled_events (remove_scheduled_event E s) AND E = 0
  \<and> add_scheduled_event E s AND NOT E = s AND NOT E
  \<and> remove_scheduled_event E s AND NOT E = s AND NOT E"
proof -
  have a: "(s OR E) AND E = E" by (auto simp: bit_eq_iff bit_simps)
  have b: "(s AND NOT E) AND E = 0" by (simp add: and.assoc)
  have c: "(s OR E) AND NOT E = s AND NOT E" by (auto simp: bit_eq_iff bit_simps)
  have d: "(s AND NOT E) AND NOT E = s AND NOT E" by (simp add: and.assoc)
  show ?thesis using a b c d add_scheduled_event_funpow[where E=E and n=n and s=s]
    by (simp add: add_scheduled_event_def remove_scheduled_event_def get_scheduled_events_def)
qed

section \<open>Properties of the sleep-mode arbiter\<close>

lemma and_then_Inr [simp]: "and_then (Inr x) f = f x"
  by (simp add: and_then_def)

lemma and_then_Inl [simp]: "and_then (Inl e) f = Inl e"
  by (simp add: and_then_def)

lemma repeated_add: "repeated (n + k) f s = and_then (repeated n f s) (repeated k f)"
proof (induction n arbitrary: s)
  case 0 show ?case by simp
next
  case (Suc n)
  show ?case by (cases "f s") (simp_all add: Suc)
qed

lemma sleep_block_mode_ok:
  assumes "length tbl = MAX_ENERGY_MODES" "unat m < MAX_ENERGY_MODES" "tbl ! unat m < 4"
  shows "sleep_block_mode m tbl = Inr (tbl[unat m := tbl ! unat m + 1])"
  using assms by (simp add: sleep_block_mode_def INT_MAX_def Let_def)

lemma sleep_block_mode_bound:
  assumes "length tbl = MAX_ENERGY_MODES" "unat m < MAX_ENERGY_MODES" "tbl ! unat m = 4"
  shows "sleep_block_mode m tbl = Inl EFM_ASSERT_sleep_block_mode"
  using assms by (simp add: sleep_block_mode_def INT_MAX_def Let_def)

lemma sleep_unblock_mode_ok:
  assumes "length tbl = MAX_ENERGY_MODES" "unat m < MAX_ENERGY_MODES" "0 < tbl ! unat m"
  shows "sleep_unblock_mode m tbl = Inr (tbl[unat m := tbl ! unat m - 1])"
  using assms by (simp add: sleep_unblock_mode_def INT_MIN_def Let_def)

lemma sleep_unblock_mode_negative:
  assumes "length tbl = MAX_ENERGY_MODES" "unat m < MAX_ENERGY_MODES" "tbl ! unat m = 0"
  shows "sleep_unblock_mode m tbl = Inl EFM_ASSERT_sleep_unblock_mode"
  using assms by (simp add: sleep_unblock_mode_def INT_MIN_def Let_def)

lemma repeated_block:
  assumes "length tbl = MAX_ENERGY_MODES" "unat m < MAX_ENERGY_MODES" "tbl ! unat m + int N < 5"
  shows "repeated N (sleep_block_mode m) tbl = Inr (tbl[unat m := tbl ! unat m + int N])"
  using assms
proof (induction N arbitrary: tbl)
  case 0 then show ?case by simp
next
  case (Suc N)
  let ?t = "tbl[unat m := tbl ! unat m + 1]"
  have step: "sleep_block_mode m tbl = Inr ?t"
    using Suc.prems by (intro sleep_block_mode_ok) simp_all
  have "repeated N (sleep_block_mode m) ?t = Inr (?t[unat m := ?t ! unat m + int N])"
    using Suc.prems by (intro Suc.IH) simp_all
  then show ?case using Suc.prems by (simp add: step add.assoc)
qed

lemma repeated_unblock:
  assumes "length tbl = MAX_ENERGY_MODES" "unat m < MAX_ENERGY_MODES" "int N \<le> tbl ! unat m"
  shows "repeated N (sleep_unblock_mode m) tbl = Inr (tbl[unat m := tbl ! unat m - int N])"
  using assms
proof (induction N arbitrary: tbl)
  case 0 then show ?case by simp
next
  case (Suc N)
  let ?t = "tbl[unat m := tbl ! unat m - 1]"
  have step: "sleep_unblock_mode m tbl = Inr ?t"
    using Suc.prems by (intro sleep_unblock_mode_ok) simp_all
  have "repeated N (sleep_unblock_mode m) ?t = Inr (?t[unat m := ?t ! unat m - int N])"
    using Suc.prems by (intro Suc.IH) simp_all
  then show ?case using Suc.prems by (simp add: step algebra_simps)
qed

text \<open>
  The block-count states are what the arbiter's own operations produce: \<open>sleep_open\<close>
  establishes them, and a block or unblock that passes its assertion keeps them.
\<close>

lemma sleep_open_block_counts:
  assumes "length tbl = MAX_ENERGY_MODES"
  shows "block_counts (sleep_open tbl)"
proof -
  have "sleep_open tbl = replicate MAX_ENERGY_MODES 0"
    using assms
    by (simp add: sleep_open_def MAX_ENERGY_MODES_def upt_rec list_eq_iff_nth_eq
          nth_list_update less_Suc_eq numeral_eq_Suc)
  then show ?thesis by (simp add: block_counts_def list_all_length)
qed

lemma sleep_block_mode_keeps_counts:
  assumes "block_counts tbl" "sleep_block_mode m tbl = Inr t"
  shows "block_counts t"
  using assms
  by (auto simp: block_counts_def sleep_block_mode_def Let_def list_all_length
        nth_list_update split: if_splits)

lemma sleep_unblock_mode_keeps_counts:
  assumes "block_counts tbl" "sleep_unblock_mode m tbl = Inr t"
  shows "block_counts t"
  using assms
  by (auto simp: block_counts_def sleep_unblock_mode_def Let_def list_all_length
        nth_list_update split: if_splits)

lemma find_append: "find P (xs @ ys) = (case find P xs of None \<Rightarrow> find P ys | Some x \<Rightarrow> Some x)"
  by (induction xs) auto

lemma scan_fold:
  "fold (scan_step tbl) [0..<n] (False, d) =
     (case find (\<lambda>i. 0 < tbl ! i) [0..<n] of None \<Rightarrow> (False, d) | Some i \<Rightarrow> (True, of_nat i))"
proof (induction n)
  case 0 show ?case by simp
next
  case (Suc n)
  have "fold (scan_step tbl) [0..<Suc n] (False, d) =
          scan_step tbl n (fold (scan_step tbl) [0..<n] (False, d))"
    by simp
  also have "\<dots> = scan_step tbl n
      (case find (\<lambda>i. 0 < tbl ! i) [0..<n] of None \<Rightarrow> (False, d) | Some i \<Rightarrow> (True, of_nat i))"
    by (simp only: Suc)
  also have "\<dots> = (case find (\<lambda>i. 0 < tbl ! i) [0..<Suc n] of
                       None \<Rightarrow> (False, d) | Some i \<Rightarrow> (True, of_nat i))"
    by (cases "find (\<lambda>i. 0 < tbl ! i) [0..<n]") (simp_all add: scan_step_def find_append)
  finally show ?case .
qed

lemma find_upt_first:
  assumes "i < n" "P i" "\<forall>j<i. \<not> P j"
  shows "find P [0..<n] = Some i"
proof -
  have "\<exists>k<length [0..<n]. P ([0..<n] ! k) \<and> i = [0..<n] ! k \<and> (\<forall>j<k. \<not> P ([0..<n] ! j))"
    using assms by (intro exI[of _ i]) simp
  then show ?thesis by (simp only: find_Some_iff)
qed

lemma find_upt_none:
  assumes "\<forall>j<n. \<not> P j"
  shows "find P [0..<n] = None"
  using assms by (simp add: find_None_iff)

text \<open>
  Claim C3. For every block-count state of the sleep arbiter,
  \<open>current_block_energy_mode\<close> returns the first mode, scanning from the shallowest
  (index 0, EM0) to the deepest (index 4, EM4), whose counter is nonzero; if all five
  counters are zero it returns the deepest mode EM4.
\<close>

theorem current_block_energy_mode_first_nonzero:
  assumes "block_counts tbl"
  shows "(\<forall>i<MAX_ENERGY_MODES. tbl ! i \<noteq> 0 \<longrightarrow> (\<forall>j<i. tbl ! j = 0) \<longrightarrow>
            current_block_energy_mode tbl = of_nat i)
       \<and> ((\<forall>i<MAX_ENERGY_MODES. tbl ! i = 0) \<longrightarrow> current_block_energy_mode tbl = EM4)"
proof -
  have nonneg: "0 \<le> tbl ! i" if "i < MAX_ENERGY_MODES" for i
    using assms that by (simp add: block_counts_def list_all_length)
  have first: "current_block_energy_mode tbl = of_nat i"
    if "i < MAX_ENERGY_MODES" "tbl ! i \<noteq> 0" "\<forall>j<i. tbl ! j = 0" for i
  proof -
    have "0 < tbl ! i" using nonneg[OF that(1)] that(2) by simp
    moreover have "\<forall>j<i. \<not> 0 < tbl ! j" using that(3) by simp
    ultimately have "find (\<lambda>i. 0 < tbl ! i) [0..<MAX_ENERGY_MODES] = Some i"
      using that(1) by (intro find_upt_first) 
    then show ?thesis by (simp add: current_block_energy_mode_def scan_fold)
  qed
  have none: "current_block_energy_mode tbl = EM4" if "\<forall>i<MAX_ENERGY_MODES. tbl ! i = 0"
  proof -
    have "find (\<lambda>i. 0 < tbl ! i) [0..<MAX_ENERGY_MODES] = None"
      using that by (intro find_upt_none) simp
    then show ?thesis by (simp add: current_block_energy_mode_def scan_fold)
  qed
  show ?thesis using first none by blast
qed

theorem current_block_energy_mode_first_nonzero_witness:
  "block_counts [0, 0, 3, 1, 0] \<and> current_block_energy_mode [0, 0, 3, 1, 0] = EM2"
proof -
  have h: "block_counts [0, 0, 3, 1, 0]"
    by (simp add: block_counts_def MAX_ENERGY_MODES_def)
  have i: "(2::nat) < MAX_ENERGY_MODES" by (simp add: MAX_ENERGY_MODES_def)
  have nz: "[0, 0, 3, 1, 0 :: int] ! 2 \<noteq> 0" by simp
  have before: "\<forall>j<2. [0, 0, 3, 1, 0 :: int] ! j = 0"
    by (simp add: less_Suc_eq numeral_2_eq_2)
  have "current_block_energy_mode [0, 0, 3, 1, 0] = of_nat 2"
    using current_block_energy_mode_first_nonzero[OF h] i nz before by blast
  then show ?thesis using h by (simp add: EM2_def)
qed

text \<open>
  Claim C5, as amended. For every mode \<open>m\<close>, every block-count state and every \<open>N\<close>
  such that the counter of \<open>m\<close> plus \<open>N\<close> stays below the bound 5 checked by
  \<open>sleep_block_mode\<close>: \<open>N\<close> calls of \<open>sleep_block_mode m\<close> followed by \<open>N\<close> calls of
  \<open>sleep_unblock_mode m\<close> all succeed and return the table to its prior value; starting
  from counter 0, \<open>N\<close> blocks followed by \<open>N + 1\<close> unblocks end in the negative-count
  assertion of \<open>sleep_unblock_mode\<close>.
\<close>

theorem block_unblock_balanced:
  assumes "block_counts tbl" "unat m < MAX_ENERGY_MODES" "tbl ! unat m + int N < 5"
  shows "and_then (repeated N (sleep_block_mode m) tbl) (repeated N (sleep_unblock_mode m)) = Inr tbl
       \<and> (tbl ! unat m = 0 \<longrightarrow>
            and_then (repeated N (sleep_block_mode m) tbl) (repeated (Suc N) (sleep_unblock_mode m))
              = Inl EFM_ASSERT_sleep_unblock_mode)"
proof -
  have len: "length tbl = MAX_ENERGY_MODES" and nonneg: "0 \<le> tbl ! unat m"
    using assms(1,2) by (simp_all add: block_counts_def list_all_length)
  let ?t = "tbl[unat m := tbl ! unat m + int N]"
  have blocks: "repeated N (sleep_block_mode m) tbl = Inr ?t"
    using len assms(2,3) by (rule repeated_block)
  have len': "length ?t = MAX_ENERGY_MODES" using len by simp
  have val: "?t ! unat m = tbl ! unat m + int N" using len assms(2) by simp
  have unblocks: "repeated N (sleep_unblock_mode m) ?t = Inr (?t[unat m := ?t ! unat m - int N])"
    using len' assms(2) nonneg val by (intro repeated_unblock) simp_all
  have restored: "?t[unat m := ?t ! unat m - int N] = tbl"
  proof -
    have "?t ! unat m - int N = tbl ! unat m" using val by simp
    then have "?t[unat m := ?t ! unat m - int N] = ?t[unat m := tbl ! unat m]"
      by (simp only:)
    also have "\<dots> = tbl" by simp
    finally show ?thesis .
  qed
  have unblocks_back: "repeated N (sleep_unblock_mode m) ?t = Inr tbl"
    using unblocks restored by (simp only:)
  have first: "and_then (repeated N (sleep_block_mode m) tbl) (repeated N (sleep_unblock_mode m)) = Inr tbl"
    by (simp add: blocks unblocks_back)
  have second: "and_then (repeated N (sleep_block_mode m) tbl) (repeated (Suc N) (sleep_unblock_mode m))
              = Inl EFM_ASSERT_sleep_unblock_mode" if z: "tbl ! unat m = 0"
  proof -
    have "repeated (N + 1) (sleep_unblock_mode m) ?t
            = and_then (repeated N (sleep_unblock_mode m) ?t) (repeated 1 (sleep_unblock_mode m))"
      by (rule repeated_add)
    also have "\<dots> = repeated 1 (sleep_unblock_mode m) tbl"
      by (simp add: unblocks_back)
    also have "\<dots> = Inl EFM_ASSERT_sleep_unblock_mode"
      using sleep_unblock_mode_negative[OF len assms(2) z] by simp
    finally show ?thesis by (simp add: blocks)
  qed
  show ?thesis using first second by blast
qed

theorem block_unblock_balanced_witness:
  "block_counts [0, 1, 2, 0, 0] \<and> unat EM2 < MAX_ENERGY_MODES \<and> [0, 1, 2, 0, 0] ! unat EM2 + int 2 < 5
   \<and> and_then (repeated 2 (sleep_block_mode EM2) [0, 1, 2, 0, 0]) (repeated 2 (sleep_unblock_mode EM2))
       = Inr [0, 1, 2, 0, 0]"
proof -
  have h1: "block_counts [0, 1, 2, 0, 0]" by (simp add: block_counts_def MAX_ENERGY_MODES_def)
  have h2: "unat EM2 < MAX_ENERGY_MODES" by (simp add: EM2_def MAX_ENERGY_MODES_def)
  have h3: "[0, 1, 2, 0, 0] ! unat EM2 + int 2 < 5" by (simp add: EM2_def)
  show ?thesis using h1 h2 h3 block_unblock_balanced[OF h1 h2 h3] by simp
qed

text \<open>
  The claim C5 as stated, for every \<open>N\<close>, fails at \<open>N = 5\<close> from an all-zero table: the
  fifth block halts in the assertion of \<open>sleep_block_mode\<close>, so the counter is not
  restored and the assertion of \<open>sleep_unblock_mode\<close> is never reached.
\<close>

theorem block_unblock_five_counterexample:
  "and_then (repeated 5 (sleep_block_mode EM2) [0, 0, 0, 0, 0]) (repeated 5 (sleep_unblock_mode EM2))
      = Inl EFM_ASSERT_sleep_block_mode
   \<and> and_then (repeated 5 (sleep_block_mode EM2) [0, 0, 0, 0, 0]) (repeated 6 (sleep_unblock_mode EM2))
      = Inl EFM_ASSERT_sleep_block_mode"
  by code_simp

text \<open>
  Claim C10. The bound on block counts is exactly 4 simultaneous blocks per mode:
  \<open>sleep_block_mode\<close> increments the counter and then asserts that it is strictly below
  5, so a block succeeds exactly when the incremented counter is below 5; from a count
  of zero the fourth unmatched block succeeds (leaving the count 4) and the fifth ends in
  the fatal assertion.
\<close>

theorem sleep_block_mode_bound_four:
  assumes "length tbl = MAX_ENERGY_MODES" "unat m < MAX_ENERGY_MODES"
  shows "((\<exists>t. sleep_block_mode m tbl = Inr t) \<longleftrightarrow> tbl ! unat m + 1 < 5)
       \<and> (tbl ! unat m = 0 \<longrightarrow>
            repeated 4 (sleep_block_mode m) tbl = Inr (tbl[unat m := 4])
          \<and> repeated 5 (sleep_block_mode m) tbl = Inl EFM_ASSERT_sleep_block_mode)"
proof -
  have iff: "(\<exists>t. sleep_block_mode m tbl = Inr t) \<longleftrightarrow> tbl ! unat m + 1 < 5"
    using assms by (auto simp: sleep_block_mode_def INT_MAX_def Let_def)
  have four: "repeated 4 (sleep_block_mode m) tbl = Inr (tbl[unat m := 4])" if z: "tbl ! unat m = 0"
    using repeated_block[OF assms, of 4] z by simp
  have five: "repeated 5 (sleep_block_mode m) tbl = Inl EFM_ASSERT_sleep_block_mode" if z: "tbl ! unat m = 0"
  proof -
    have "repeated (4 + 1) (sleep_block_mode m) tbl
            = and_then (repeated 4 (sleep_block_mode m) tbl) (repeated 1 (sleep_block_mode m))"
      by (rule repeated_add)
    also have "\<dots> = repeated 1 (sleep_block_mode m) (tbl[unat m := 4])"
      by (simp add: four[OF z])
    also have "\<dots> = Inl EFM_ASSERT_sleep_block_mode"
      using sleep_block_mode_bound[of "tbl[unat m := 4]" m] assms by simp
    finally show ?thesis by simp
  qed
  show ?thesis using iff four five by blast
qed

theorem sleep_block_mode_bound_four_witness:
  "length [0, 0, 0, 0, 0 :: int] = MAX_ENERGY_MODES \<and> unat EM2 < MAX_ENERGY_MODES
   \<and> repeated 4 (sleep_block_mode EM2) [0, 0, 0, 0, 0] = Inr [0, 0, 4, 0, 0]
   \<and> repeated 5 (sleep_block_mode EM2) [0, 0, 0, 0, 0] = Inl EFM_ASSERT_sleep_block_mode"
proof -
  have h1: "length [0, 0, 0, 0, 0 :: int] = MAX_ENERGY_MODES" by (simp add: MAX_ENERGY_MODES_def)
  have h2: "unat EM2 < MAX_ENERGY_MODES" by (simp add: EM2_def MAX_ENERGY_MODES_def)
  have upd: "[0, 0, 0, 0, 0 :: int][unat EM2 := 4] = [0, 0, 4, 0, 0]" by code_simp
  have z: "[0, 0, 0, 0, 0 :: int] ! unat EM2 = 0" by code_simp
  show ?thesis using h1 h2 sleep_block_mode_bound_four[OF h1 h2] z by (simp only: upd simp_thms)
qed

section \<open>Properties of the I2C transaction engine\<close>

subsection \<open>The NACK handler\<close>

text \<open>
  Claim C7. A NACK interrupt handled while the state machine is in \<open>request_read\<close>
  re-issues the repeated START and the device address with the read bit, leaving the
  state machine as it is (a retry); a NACK handled in any other state ends in the fatal
  assertion of \<open>i2c_nack_sm\<close>, with nothing written to the bus.
\<close>

theorem i2c_nack_sm_retry_or_halt:
  "(current_state i2c_sm = request_read \<longrightarrow>
      i2c_nack_sm i2c_sm i2cx =
        Inr (i2c_sm, i2cx\<lparr>writes := writes i2cx @
               [CMD I2C_CMD_START, TXDATA (push_bit 1 (device_address i2c_sm) OR I2C_R)]\<rparr>))
   \<and> (current_state i2c_sm \<noteq> request_read \<longrightarrow>
      i2c_nack_sm i2c_sm i2cx = Inl EFM_ASSERT_i2c_nack_sm)"
  by (simp add: i2c_nack_sm_def write_reg_def)

theorem i2c_nack_sm_retry_or_halt_witness:
  "current_state ((reading 2)\<lparr>current_state := request_read\<rparr>) = request_read
   \<and> i2c_nack_sm ((reading 2)\<lparr>current_state := request_read\<rparr>) quiet_bus =
       Inr ((reading 2)\<lparr>current_state := request_read\<rparr>,
            quiet_bus\<lparr>writes := [CMD I2C_CMD_START, TXDATA 0x81]\<rparr>)
   \<and> current_state (reading 2) \<noteq> request_read
   \<and> i2c_nack_sm (reading 2) quiet_bus = Inl EFM_ASSERT_i2c_nack_sm"
  using i2c_nack_sm_retry_or_halt[of "(reading 2)\<lparr>current_state := request_read\<rparr>" quiet_bus]
        i2c_nack_sm_retry_or_halt[of "reading 2" quiet_bus]
  by (simp add: reading_def quiet_bus_def I2C_R_def)

subsection \<open>The byte-received handler\<close>

lemma big_endian_bound: "big_endian bs < 256 ^ length bs"
proof (induction bs)
  case Nil show ?case by simp
next
  case (Cons b bs)
  let ?p = "(256::nat) ^ length bs"
  have "unat b < 256" using unsigned_less[of b] by simp
  then have "unat b + 1 \<le> 256" by simp
  then have a: "(unat b + 1) * ?p \<le> 256 * ?p" by (rule mult_le_mono1)
  have b: "unat b * ?p + big_endian bs < (unat b + 1) * ?p"
    using Cons by simp
  from b a have "unat b * ?p + big_endian bs < 256 * ?p" by (rule less_le_trans)
  then show ?case by simp
qed

lemma bit_below:
  assumes "r < 2 ^ k" "bit (r::nat) i"
  shows "i < k"
proof -
  have "take_bit k r = r" using assms(1) by (rule take_bit_nat_eq_self)
  then have "bit (take_bit k r) i" using assms(2) by simp
  then show ?thesis by (simp add: bit_take_bit_iff)
qed

lemma low_bits_disjoint:
  assumes "r < 2 ^ k"
  shows "\<not> bit (push_bit k a :: u32) n \<or> \<not> bit (word_of_nat r :: u32) n"
  using bit_below[OF assms, of n] by (auto simp: bit_simps)

lemma or_low_eq_add:
  assumes "r < 2 ^ k"
  shows "(push_bit k a :: u32) OR of_nat r = push_bit k a + of_nat r"
  using low_bits_disjoint[OF assms] by (intro disjunctive_add[symmetric])

lemma or_low_eq_low_iff:
  assumes "r < 2 ^ k"
  shows "(push_bit k a :: u32) OR of_nat r = of_nat r \<longleftrightarrow> (push_bit k a :: u32) = 0"
proof
  assume eq: "(push_bit k a :: u32) OR of_nat r = of_nat r"
  show "(push_bit k a :: u32) = 0"
  proof (rule bit_eqI)
    fix n
    have "bit (push_bit k a :: u32) n \<Longrightarrow> bit (word_of_nat r :: u32) n"
      using eq by (metis bit_or_iff)
    then show "bit (push_bit k a :: u32) n = bit (0 :: u32) n"
      using low_bits_disjoint[OF assms, of a n] by auto
  qed
next
  assume "(push_bit k a :: u32) = 0"
  then show "(push_bit k a :: u32) OR of_nat r = of_nat r" by simp
qed

lemma ucast_byte: "(word_of_nat (unat (b :: 8 word)) :: u32) = ucast b"
  by simp

lemma accumulate_big_endian:
  "push_bit (8 * length bs) (push_bit 8 v OR ucast b) OR word_of_nat (big_endian bs)
     = push_bit (8 * length (b # bs)) (v :: u32) OR word_of_nat (big_endian (b # bs))"
proof -
  let ?n = "length bs"
  have lt: "big_endian bs < 2 ^ (8 * ?n)"
    using big_endian_bound[of bs] by (simp add: power_mult)
  have "(word_of_nat (big_endian (b # bs)) :: u32)
          = push_bit (8 * ?n) (ucast b) + word_of_nat (big_endian bs)"
    by (simp add: push_bit_eq_mult power_mult)
  also have "\<dots> = push_bit (8 * ?n) (ucast b) OR word_of_nat (big_endian bs)"
    by (rule or_low_eq_add[OF lt, symmetric])
  finally have split: "(word_of_nat (big_endian (b # bs)) :: u32)
          = push_bit (8 * ?n) (ucast b) OR word_of_nat (big_endian bs)" .
  have "push_bit (8 * ?n) (push_bit 8 v OR ucast b)
          = push_bit (8 * length (b # bs)) v OR push_bit (8 * ?n) (ucast b)"
    by (simp add: add.commute)
  then show ?thesis by (simp only: split or.assoc)
qed

lemma rxdatav_accumulate:
  assumes "byte_counter i2c_sm \<noteq> 0"
  shows "i2c_rxdatav_sm i2c_sm (i2cx\<lparr>RXDATA := ucast b\<rparr>) m =
           (i2c_sm\<lparr>byte_counter := byte_counter i2c_sm - 1\<rparr>,
            i2cx\<lparr>RXDATA := ucast b, writes := writes i2cx @ [CMD I2C_CMD_ACK]\<rparr>,
            m(data i2c_sm := push_bit 8 (m (data i2c_sm)) OR ucast b))"
  using assms by (simp add: i2c_rxdatav_sm_def write_reg_def Let_def word_gt_0)

lemma rxdatav_finish:
  assumes "byte_counter i2c_sm = 0"
  shows "i2c_rxdatav_sm i2c_sm (i2cx\<lparr>RXDATA := ucast b\<rparr>) m =
           (i2c_sm\<lparr>current_state := send_stop\<rparr>,
            i2cx\<lparr>RXDATA := ucast b, writes := writes i2cx @ [CMD I2C_CMD_NACK, CMD I2C_CMD_STOP]\<rparr>,
            m)"
  using assms by (simp add: i2c_rxdatav_sm_def write_reg_def Let_def)

lemma receive_within_count:
  assumes "length bs \<le> unat (byte_counter i2c_sm)"
  shows "\<exists>i2cx'. receive bs (i2c_sm, i2cx, m) =
           (i2c_sm\<lparr>byte_counter := byte_counter i2c_sm - of_nat (length bs)\<rparr>,
            i2cx',
            m(data i2c_sm := push_bit (8 * length bs) (m (data i2c_sm)) OR word_of_nat (big_endian bs)))
         \<and> writes i2cx' = writes i2cx @ replicate (length bs) (CMD I2C_CMD_ACK)"
  using assms
proof (induction bs arbitrary: i2c_sm i2cx m)
  case Nil
  show ?case by simp
next
  case (Cons b bs)
  let ?sm = "i2c_sm\<lparr>byte_counter := byte_counter i2c_sm - 1\<rparr>"
  let ?x = "i2cx\<lparr>RXDATA := ucast b, writes := writes i2cx @ [CMD I2C_CMD_ACK]\<rparr>"
  let ?m = "m(data i2c_sm := push_bit 8 (m (data i2c_sm)) OR ucast b)"
  have nz: "byte_counter i2c_sm \<noteq> 0" using Cons.prems by auto
  have len: "length bs \<le> unat (byte_counter ?sm)"
    using Cons.prems nz by (simp add: unat_minus_one)
  obtain x' where rest: "receive bs (?sm, ?x, ?m) =
        (?sm\<lparr>byte_counter := byte_counter ?sm - of_nat (length bs)\<rparr>, x',
         ?m(data ?sm := push_bit (8 * length bs) (?m (data ?sm)) OR word_of_nat (big_endian bs)))"
      and wr: "writes x' = writes ?x @ replicate (length bs) (CMD I2C_CMD_ACK)"
    using Cons.IH[OF len, of ?x ?m] by blast
  have step: "receive (b # bs) (i2c_sm, i2cx, m) = receive bs (?sm, ?x, ?m)"
    by (simp add: rxdatav_accumulate[OF nz])
  have cnt: "?sm\<lparr>byte_counter := byte_counter ?sm - of_nat (length bs)\<rparr>
           = i2c_sm\<lparr>byte_counter := byte_counter i2c_sm - of_nat (length (b # bs))\<rparr>"
    by (simp add: algebra_simps)
  have val: "?m(data ?sm := push_bit (8 * length bs) (?m (data ?sm)) OR word_of_nat (big_endian bs))
           = m(data i2c_sm := push_bit (8 * length (b # bs)) (m (data i2c_sm))
                               OR word_of_nat (big_endian (b # bs)))"
    using accumulate_big_endian[of bs "m (data i2c_sm)" b] by simp
  have wr': "writes x' = writes i2cx @ replicate (length (b # bs)) (CMD I2C_CMD_ACK)"
    using wr by (simp add: replicate_append_same)
  show ?case
    by (rule exI[of _ x']) (simp only: step rest cnt val wr' simp_thms)
qed

lemma receive_append:
  "receive (bs @ cs) st = receive cs (receive bs st)"
proof (induction bs arbitrary: st)
  case Nil
  show ?case by simp
next
  case (Cons b bs)
  obtain sm x m where st: "st = (sm, x, m)" by (cases st)
  show ?case by (simp add: st Cons.IH)
qed

lemma receive_one_more:
  assumes "length bs = unat (byte_counter i2c_sm)"
  shows "\<exists>i2cx'. receive (bs @ [b]) (i2c_sm, i2cx, m) =
           (i2c_sm\<lparr>byte_counter := 0, current_state := send_stop\<rparr>, i2cx',
            m(data i2c_sm := push_bit (8 * length bs) (m (data i2c_sm)) OR word_of_nat (big_endian bs)))
         \<and> writes i2cx' = writes i2cx @ replicate (length bs) (CMD I2C_CMD_ACK)
                            @ [CMD I2C_CMD_NACK, CMD I2C_CMD_STOP]"
proof -
  have le: "length bs \<le> unat (byte_counter i2c_sm)" using assms by simp
  obtain x1 where r: "receive bs (i2c_sm, i2cx, m) =
           (i2c_sm\<lparr>byte_counter := byte_counter i2c_sm - of_nat (length bs)\<rparr>, x1,
            m(data i2c_sm := push_bit (8 * length bs) (m (data i2c_sm)) OR word_of_nat (big_endian bs)))"
      and w: "writes x1 = writes i2cx @ replicate (length bs) (CMD I2C_CMD_ACK)"
    using receive_within_count[OF le, of i2cx m] by blast
  have z: "byte_counter i2c_sm - of_nat (length bs) = 0" using assms by simp
  show ?thesis
    by (simp add: receive_append r z i2c_rxdatav_sm_def write_reg_def w)
qed

text \<open>
  Claim C9, as amended. The read path never clears the caller's destination word before
  accumulating: after a read that delivers the bytes \<open>bs\<close> (no more than the byte
  counter asks for), the destination holds the initial value shifted left by
  \<open>8 * length bs\<close> bits, or-ed with the big-endian value of the bytes, in 32 bits. The
  result is the big-endian value of the bytes alone exactly when the shifted initial
  value is zero in 32 bits, that is when the low \<open>32 - 8 * length bs\<close> bits of the
  destination word were zero (in particular when the word was zero).
\<close>

theorem receive_accumulates_onto_destination:
  assumes "length bs \<le> unat (byte_counter i2c_sm)"
  shows "snd (snd (receive bs (i2c_sm, i2cx, m))) (data i2c_sm)
           = push_bit (8 * length bs) (m (data i2c_sm)) OR word_of_nat (big_endian bs)
       \<and> (snd (snd (receive bs (i2c_sm, i2cx, m))) (data i2c_sm) = word_of_nat (big_endian bs)
            \<longleftrightarrow> push_bit (8 * length bs) (m (data i2c_sm)) = 0)"
proof -
  obtain x' where r: "receive bs (i2c_sm, i2cx, m) =
           (i2c_sm\<lparr>byte_counter := byte_counter i2c_sm - of_nat (length bs)\<rparr>, x',
            m(data i2c_sm := push_bit (8 * length bs) (m (data i2c_sm)) OR word_of_nat (big_endian bs)))"
    using receive_within_count[OF assms, of i2cx m] by blast
  have v: "snd (snd (receive bs (i2c_sm, i2cx, m))) (data i2c_sm)
           = push_bit (8 * length bs) (m (data i2c_sm)) OR word_of_nat (big_endian bs)"
    by (simp add: r)
  have lt: "big_endian bs < 2 ^ (8 * length bs)"
    using big_endian_bound[of bs] by (simp add: power_mult)
  show ?thesis
    using or_low_eq_low_iff[OF lt, of "m (data i2c_sm)"] by (simp only: v simp_thms)
qed

theorem receive_accumulates_onto_destination_witness:
  "length [0x56, 0x78 :: 8 word] \<le> unat (byte_counter (reading 2))
   \<and> snd (snd (receive [0x56, 0x78] (reading 2, quiet_bus, \<lambda>_. 0))) (data (reading 2)) = 0x5678"
proof -
  have h: "length [0x56, 0x78 :: 8 word] \<le> unat (byte_counter (reading 2))"
    by (simp add: reading_def)
  have be: "big_endian [0x56, 0x78] = 0x5678" by simp
  show ?thesis
    using h receive_accumulates_onto_destination[OF h, of quiet_bus "\<lambda>_. 0"] by (simp add: be)
qed

text \<open>
  The claim C9 as stated says the documented result \<^verbatim>\<open>0x5678\<close> is obtained only when
  the destination word is zero. With the nonzero destination \<^verbatim>\<open>0x10000\<close> the two
  shifts push the set bit out of the 32-bit word and the result is \<^verbatim>\<open>0x5678\<close> too.
\<close>

theorem receive_nonzero_destination_counterexample:
  "snd (snd (receive [0x56, 0x78] (reading 2, quiet_bus, \<lambda>_. 0x10000))) (data (reading 2)) = 0x5678
   \<and> (0x10000 :: u32) \<noteq> 0"
  by code_simp

text \<open>
  Claim C2 (the code differs). The 1-byte read of register \<^verbatim>\<open>0xE7\<close> of device
  \<^verbatim>\<open>0x40\<close>: the first and only expected byte \<^verbatim>\<open>0x3B\<close> is answered with ACK and the
  state machine stays in \<open>read_data\<close>; NACK and STOP are written, and \<open>send_stop\<close> is
  entered, only on a second byte-received interrupt, whose byte is not accumulated.
  (\<open>receive_within_count\<close> and \<open>receive_one_more\<close> show the same for every length:
  \<open>n\<close> requested bytes get \<open>n\<close> ACKs, the byte after them gets NACK and STOP.)
\<close>

theorem read_last_byte_is_acked:
  "(case run (opened_system (\<lambda>_. 0))
           [Start (request False I2C_READ 0x40 0xE7 1 0 1 0x100) True,
            Interrupt False {I2C_IF_ACK} 0, Interrupt False {I2C_IF_ACK} 0,
            Interrupt False {I2C_IF_ACK} 0, Interrupt False {I2C_IF_RXDATAV} 0x3B] of
      Some (Inr s) \<Rightarrow>
        Some (writes (I2C0 s), current_state (i2c0_state_machine s),
              byte_counter (i2c0_state_machine s), mem s 0)
    | _ \<Rightarrow> None)
   = Some ([CMD I2C_CMD_START, TXDATA 0x80, TXDATA 0xE7, CMD I2C_CMD_START, TXDATA 0x81,
            CMD I2C_CMD_ACK], read_data, 0, 0x3B)
   \<and> (case run (opened_system (\<lambda>_. 0))
           [Start (request False I2C_READ 0x40 0xE7 1 0 1 0x100) True,
            Interrupt False {I2C_IF_ACK} 0, Interrupt False {I2C_IF_ACK} 0,
            Interrupt False {I2C_IF_ACK} 0, Interrupt False {I2C_IF_RXDATAV} 0x3B,
            Interrupt False {I2C_IF_RXDATAV} 0xFF] of
      Some (Inr s) \<Rightarrow>
        Some (writes (I2C0 s), current_state (i2c0_state_machine s),
              byte_counter (i2c0_state_machine s), mem s 0)
    | _ \<Rightarrow> None)
   = Some ([CMD I2C_CMD_START, TXDATA 0x80, TXDATA 0xE7, CMD I2C_CMD_START, TXDATA 0x81,
            CMD I2C_CMD_ACK, CMD I2C_CMD_NACK, CMD I2C_CMD_STOP], send_stop, 0, 0x3B)"
  by code_simp

subsection \<open>The first ACK of a transaction\<close>

lemma drop_bit_masked: "drop_bit n ((v :: u32) AND push_bit n m) = drop_bit n v AND m"
  by (rule bit_eqI) (auto simp: bit_simps dest: bit_imp_le_length)

lemma small_word_cases:
  assumes "1 \<le> unat (c :: u32)" "unat c \<le> 4"
  shows "c = 1 \<or> c = 2 \<or> c = 3 \<or> c = 4"
proof -
  have "unat c = 1 \<or> unat c = 2 \<or> unat c = 3 \<or> unat c = 4" using assms by arith
  moreover have "c = word_of_nat (unat c)" by simp
  ultimately show ?thesis by (metis of_nat_1 of_nat_numeral)
qed

lemma select_byte_in_range:
  assumes "1 \<le> unat c" "unat c \<le> 4"
  shows "select_byte v c = Inr (drop_bit (8 * (unat c - 1)) v AND 0xFF)"
  using small_word_cases[OF assms]
  by (auto simp: select_byte_def drop_bit_masked)

lemma ack_initialize_register_byte:
  assumes "current_state i2c_sm = initialize"
      and "1 \<le> unat (register_byte_counter i2c_sm)" "unat (register_byte_counter i2c_sm) \<le> 4"
  shows "i2c_ack_sm i2c_sm i2cx m =
           Inr (i2c_sm\<lparr>current_state :=
                        (if register_byte_counter i2c_sm = 1 then send_register else initialize),
                      register_byte_counter := register_byte_counter i2c_sm - 1\<rparr>,
                i2cx\<lparr>writes := writes i2cx @
                  [TXDATA (drop_bit (8 * (unat (register_byte_counter i2c_sm) - 1))
                             (register_address i2c_sm) AND 0xFF)]\<rparr>)"
  using small_word_cases[OF assms(2,3)] assms(1)
  by (auto simp: i2c_ack_sm_def select_byte_in_range write_reg_def Let_def)

lemma ack_initialize_without_register:
  assumes "current_state i2c_sm = initialize" "register_byte_counter i2c_sm = 0"
      and "1 \<le> unat (byte_counter i2c_sm)" "unat (byte_counter i2c_sm) \<le> 4"
  shows "i2c_ack_sm i2c_sm i2cx m =
           Inr (i2c_sm\<lparr>current_state := send_register,
                      byte_counter := byte_counter i2c_sm - 1\<rparr>,
                i2cx\<lparr>writes := writes i2cx @
                  [TXDATA (drop_bit (8 * (unat (byte_counter i2c_sm) - 1))
                             (m (data i2c_sm)) AND 0xFF)]\<rparr>)"
  using assms
  by (simp add: i2c_ack_sm_def send_payload_byte_def select_byte_in_range write_reg_def)

text \<open>
  Claim C4 (the code differs). A 2-byte read with zero register-address bytes: on the
  first ACK the engine does not issue the repeated START; it writes the byte of the
  caller's destination word numbered by the byte counter (\<^verbatim>\<open>0xAB\<close> of \<^verbatim>\<open>0xABCD\<close>) to
  \<^verbatim>\<open>TXDATA\<close>, decrements the byte counter and moves to \<open>send_register\<close>. The repeated
  START comes with the second ACK, and only one of the two bytes is accumulated.
  (\<open>ack_initialize_register_byte\<close> shows the register bytes going out most significant
  first; \<open>ack_initialize_without_register\<close> shows that without register bytes the
  payload byte is sent whatever the direction.)
\<close>

theorem read_without_register_sends_payload_byte:
  "(case run (opened_system (\<lambda>_. 0xABCD))
           [Start (request False I2C_READ 0x40 0 0 0 2 0x100) True,
            Interrupt False {I2C_IF_ACK} 0] of
      Some (Inr s) \<Rightarrow>
        Some (writes (I2C0 s), current_state (i2c0_state_machine s),
              byte_counter (i2c0_state_machine s))
    | _ \<Rightarrow> None)
   = Some ([CMD I2C_CMD_START, TXDATA 0x80, TXDATA 0xAB], send_register, 1)
  \<and> (case run (opened_system (\<lambda>_. 0xABCD))
           [Start (request False I2C_READ 0x40 0 0 0 2 0x100) True,
            Interrupt False {I2C_IF_ACK} 0, Interrupt False {I2C_IF_ACK} 0,
            Interrupt False {I2C_IF_ACK} 0, Interrupt False {I2C_IF_RXDATAV} 0x56,
            Interrupt False {I2C_IF_RXDATAV} 0x78] of
      Some (Inr s) \<Rightarrow>
        Some (writes (I2C0 s), current_state (i2c0_state_machine s), mem s 0)
    | _ \<Rightarrow> None)
   = Some ([CMD I2C_CMD_START, TXDATA 0x80, TXDATA 0xAB, CMD I2C_CMD_START, TXDATA 0x81,
            CMD I2C_CMD_ACK, CMD I2C_CMD_NACK, CMD I2C_CMD_STOP], send_stop, 0xABCD56)"
  by code_simp

subsection \<open>The busy flag, the completion event and runs of the engine\<close>

lemma and_then_eq_Inr:
  "and_then r f = Inr y \<longleftrightarrow> (\<exists>x. r = Inr x \<and> f x = Inr y)"
  by (cases r) simp_all

lemma get_set_simps [simp]:
  "get_sm w (set_sm w v s) = v"
  "get_sm w (set_sm (\<not> w) v s) = get_sm w s"
  "get_sm (\<not> w) (set_sm w v s) = get_sm (\<not> w) s"
  "get_sm w (set_i2cx w' x s) = get_sm w s"
  "get_i2cx w (set_i2cx w x s) = x"
  "get_i2cx w (set_i2cx (\<not> w) x s) = get_i2cx w s"
  "get_i2cx (\<not> w) (set_i2cx w x s) = get_i2cx (\<not> w) s"
  "get_i2cx w (set_sm w' v s) = get_i2cx w s"
  "mem (set_sm w v s) = mem s"
  "mem (set_i2cx w x s) = mem s"
  "event_scheduled (set_sm w v s) = event_scheduled s"
  "event_scheduled (set_i2cx w x s) = event_scheduled s"
  "lowest_energy_mode (set_sm w v s) = lowest_energy_mode s"
  "lowest_energy_mode (set_i2cx w x s) = lowest_energy_mode s"
  by (simp_all add: get_sm_def set_sm_def get_i2cx_def set_i2cx_def)

lemma get_field_update_simps [simp]:
  "get_sm w (s\<lparr>mem := m\<rparr>) = get_sm w s"
  "get_sm w (s\<lparr>event_scheduled := ev\<rparr>) = get_sm w s"
  "get_sm w (s\<lparr>lowest_energy_mode := tbl\<rparr>) = get_sm w s"
  "get_i2cx w (s\<lparr>mem := m\<rparr>) = get_i2cx w s"
  "get_i2cx w (s\<lparr>event_scheduled := ev\<rparr>) = get_i2cx w s"
  "get_i2cx w (s\<lparr>lowest_energy_mode := tbl\<rparr>) = get_i2cx w s"
  by (simp_all add: get_sm_def get_i2cx_def)

lemma get_sm_other: "w' \<noteq> w \<Longrightarrow> get_sm w (set_sm w' v s) = get_sm w s"
  by (simp add: get_sm_def set_sm_def)

lemma get_i2cx_other: "w' \<noteq> w \<Longrightarrow> get_i2cx w (set_i2cx w' x s) = get_i2cx w s"
  by (simp add: get_i2cx_def set_i2cx_def)

lemma wait_while_busy_free: "\<not> busy (get_sm which s) \<Longrightarrow> wait_while_busy which s = Some s"
  by (subst wait_while_busy.simps) simp

lemma wait_while_busy_Some:
  assumes "wait_while_busy which s = Some s'"
  shows "\<not> busy (get_sm which s) \<and> s' = s"
  by (rule wait_while_busy.raw_induct
        [where P = "\<lambda>which s s'. \<not> busy (get_sm which s) \<and> s' = s", OF _ assms])
     (auto split: if_splits)

lemma wait_while_busy_spins: "busy (get_sm which s) \<Longrightarrow> wait_while_busy which s = None"
  using wait_while_busy_Some[of which s] by (cases "wait_while_busy which s") auto

lemma select_keeps:
  "send_payload_byte sm x m = Inr (sm', x') \<Longrightarrow>
     busy sm' = busy sm \<and> finished_callback sm' = finished_callback sm"
  by (auto simp: send_payload_byte_def and_then_eq_Inr)

lemma ack_keeps:
  "i2c_ack_sm sm x m = Inr (sm', x') \<Longrightarrow>
     busy sm' = busy sm \<and> finished_callback sm' = finished_callback sm"
  by (auto simp: i2c_ack_sm_def and_then_eq_Inr Let_def
           split: DEFINED_STATES.splits if_splits dest!: select_keeps)

lemma nack_keeps:
  "i2c_nack_sm sm x = Inr (sm', x') \<Longrightarrow>
     busy sm' = busy sm \<and> finished_callback sm' = finished_callback sm"
  by (auto simp: i2c_nack_sm_def split: if_splits)

lemma rxdatav_keeps:
  "i2c_rxdatav_sm sm x m = (sm', x', m') \<Longrightarrow>
     busy sm' = busy sm \<and> finished_callback sm' = finished_callback sm"
  by (auto simp: i2c_rxdatav_sm_def Let_def split: if_splits)

lemma stop_posts:
  "i2c_stop_sm sm ev tbl = Inr (sm', ev', tbl') \<Longrightarrow>
     \<not> busy sm' \<and> finished_callback sm' = finished_callback sm
     \<and> ev' = add_scheduled_event (finished_callback sm) ev
     \<and> sleep_unblock_mode I2C_EM tbl = Inr tbl'"
  by (auto simp: i2c_stop_sm_def Let_def and_then_eq_Inr split: if_splits)

lemma isr_ack_keeps:
  assumes "isr_ack w fl s = Inr s'"
  shows "busy (get_sm b s') = busy (get_sm b s)
       \<and> finished_callback (get_sm b s') = finished_callback (get_sm b s)
       \<and> event_scheduled s' = event_scheduled s"
  using assms
  by (cases "b = w")
     (auto simp: isr_ack_def and_then_eq_Inr get_sm_other split: if_splits dest: ack_keeps)

lemma isr_nack_keeps:
  assumes "isr_nack w fl s = Inr s'"
  shows "busy (get_sm b s') = busy (get_sm b s)
       \<and> finished_callback (get_sm b s') = finished_callback (get_sm b s)
       \<and> event_scheduled s' = event_scheduled s"
  using assms
  by (cases "b = w")
     (auto simp: isr_nack_def and_then_eq_Inr get_sm_other split: if_splits dest: nack_keeps)

lemma isr_rxdatav_keeps:
  assumes "isr_rxdatav w fl s = Inr s'"
  shows "busy (get_sm b s') = busy (get_sm b s)
       \<and> finished_callback (get_sm b s') = finished_callback (get_sm b s)
       \<and> event_scheduled s' = event_scheduled s"
  using assms
  by (cases "b = w")
     (auto simp: isr_rxdatav_def get_sm_other split: if_splits prod.splits dest: rxdatav_keeps)

lemma isr_mstop_absent:
  assumes "isr_mstop w fl s = Inr s'" "I2C_IF_MSTOP \<notin> fl"
  shows "s' = s"
  using assms by (simp add: isr_mstop_def)

lemma isr_mstop_posts:
  assumes "isr_mstop w fl s = Inr s'" "I2C_IF_MSTOP \<in> fl"
  shows "\<not> busy (get_sm w s')
       \<and> finished_callback (get_sm w s') = finished_callback (get_sm w s)
       \<and> event_scheduled s' = add_scheduled_event (finished_callback (get_sm w s)) (event_scheduled s)
       \<and> get_sm (\<not> w) s' = get_sm (\<not> w) s"
  using assms
  by (auto simp: isr_mstop_def and_then_eq_Inr dest: stop_posts)

lemma i2c_isr_phases:
  assumes "i2c_isr w fl s = Inr s'"
  obtains s1 s2 s3 where "isr_ack w fl s = Inr s1" "isr_nack w fl s1 = Inr s2"
    "isr_rxdatav w fl s2 = Inr s3" "isr_mstop w fl s3 = Inr s'"
  using assms by (auto simp: i2c_isr_def and_then_eq_Inr)

lemma i2c_isr_before_stop:
  assumes "isr_ack w fl s = Inr s1" "isr_nack w fl s1 = Inr s2" "isr_rxdatav w fl s2 = Inr s3"
  shows "busy (get_sm b s3) = busy (get_sm b s)
       \<and> finished_callback (get_sm b s3) = finished_callback (get_sm b s)
       \<and> event_scheduled s3 = event_scheduled s"
  using isr_ack_keeps[OF assms(1), of b] isr_nack_keeps[OF assms(2), of b]
        isr_rxdatav_keeps[OF assms(3), of b]
  by simp

lemma i2c_isr_without_mstop:
  assumes "i2c_isr w fl s = Inr s'" "I2C_IF_MSTOP \<notin> fl"
  shows "busy (get_sm b s') = busy (get_sm b s)
       \<and> finished_callback (get_sm b s') = finished_callback (get_sm b s)
       \<and> event_scheduled s' = event_scheduled s"
proof -
  obtain s1 s2 s3 where p: "isr_ack w fl s = Inr s1" "isr_nack w fl s1 = Inr s2"
    "isr_rxdatav w fl s2 = Inr s3" "isr_mstop w fl s3 = Inr s'"
    using assms(1) by (rule i2c_isr_phases)
  have "s' = s3" using p(4) assms(2) by (rule isr_mstop_absent)
  then show ?thesis using i2c_isr_before_stop[OF p(1,2,3), of b] by simp
qed

lemma i2c_isr_with_mstop:
  assumes "i2c_isr w fl s = Inr s'" "I2C_IF_MSTOP \<in> fl"
  shows "\<not> busy (get_sm w s')
       \<and> finished_callback (get_sm w s') = finished_callback (get_sm w s)
       \<and> event_scheduled s' = add_scheduled_event (finished_callback (get_sm w s)) (event_scheduled s)
       \<and> busy (get_sm (\<not> w) s') = busy (get_sm (\<not> w) s)
       \<and> finished_callback (get_sm (\<not> w) s') = finished_callback (get_sm (\<not> w) s)"
proof -
  obtain s1 s2 s3 where p: "isr_ack w fl s = Inr s1" "isr_nack w fl s1 = Inr s2"
    "isr_rxdatav w fl s2 = Inr s3" "isr_mstop w fl s3 = Inr s'"
    using assms(1) by (rule i2c_isr_phases)
  show ?thesis
    using isr_mstop_posts[OF p(4) assms(2)] i2c_isr_before_stop[OF p(1,2,3), of w]
          i2c_isr_before_stop[OF p(1,2,3), of "\<not> w"]
    by simp
qed

lemma i2c_start_body_effect:
  assumes "i2c_start_body req s = Inr s'"
  shows "busy (get_sm (start_which_i2c req) s')
       \<and> finished_callback (get_sm (start_which_i2c req) s') = start_finished_callback req
       \<and> get_sm (\<not> start_which_i2c req) s' = get_sm (\<not> start_which_i2c req) s
       \<and> event_scheduled s' = event_scheduled s
       \<and> sleep_block_mode I2C_EM (lowest_energy_mode s) = Inr (lowest_energy_mode s')
       \<and> writes (get_i2cx (start_which_i2c req) s')
           = writes (get_i2cx (start_which_i2c req) s)
               @ [CMD I2C_CMD_START, TXDATA (push_bit 1 (start_device_address req) OR I2C_W)]"
  using assms
  by (auto simp: i2c_start_body_def Let_def and_then_eq_Inr write_reg_def split: if_splits)

lemma i2c_start_Some:
  "i2c_start req s = Some r \<longleftrightarrow> \<not> busy (get_sm (start_which_i2c req) s) \<and> r = i2c_start_body req s"
  by (auto simp: i2c_start_def wait_while_busy_free dest: wait_while_busy_Some)

lemma i2c_start_spins:
  "busy (get_sm (start_which_i2c req) s) \<Longrightarrow> i2c_start req s = None"
  by (simp add: i2c_start_def wait_while_busy_spins)

lemma run_Cons_Inr:
  "run s (e # es) = Some (Inr s') \<longleftrightarrow>
     (\<exists>s1. sys_step s e = Some (Inr s1) \<and> run s1 es = Some (Inr s'))"
  by (auto split: option.splits sum.splits)

lemma run_append_Inr:
  "run s (xs @ ys) = Some (Inr s') \<longleftrightarrow>
     (\<exists>s1. run s xs = Some (Inr s1) \<and> run s1 ys = Some (Inr s'))"
proof (induction xs arbitrary: s)
  case Nil
  show ?case by simp
next
  case (Cons e es)
  show ?case by (simp only: append_Cons run_Cons_Inr Cons.IH) blast
qed

lemma sys_step_Start:
  assumes "sys_step s (Start req idle) = Some (Inr s')"
  shows "\<not> busy (get_sm (start_which_i2c req) s)
       \<and> busy (get_sm (start_which_i2c req) s')
       \<and> finished_callback (get_sm (start_which_i2c req) s') = start_finished_callback req
       \<and> get_sm (\<not> start_which_i2c req) s' = get_sm (\<not> start_which_i2c req) s"
proof -
  let ?s0 = "set_i2cx (start_which_i2c req)
               ((get_i2cx (start_which_i2c req) s)\<lparr>STATE_IDLE := idle\<rparr>) s"
  have st: "i2c_start req ?s0 = Some (Inr s')" using assms by (simp add: sys_step_def)
  then have nb: "\<not> busy (get_sm (start_which_i2c req) ?s0)"
    and body: "i2c_start_body req ?s0 = Inr s'"
    by (simp_all add: i2c_start_Some)
  show ?thesis using nb i2c_start_body_effect[OF body] by simp
qed

lemma sys_step_while_busy:
  assumes "sys_step s e = Some (Inr s')" "busy (get_sm w s)"
  shows "(busy (get_sm w s') \<and> finished_callback (get_sm w s') = finished_callback (get_sm w s))
       \<or> (\<exists>fl rx. e = Interrupt w fl rx \<and> I2C_IF_MSTOP \<in> fl \<and> \<not> busy (get_sm w s')
             \<and> event_scheduled s' =
                 add_scheduled_event (finished_callback (get_sm w s)) (event_scheduled s))"
proof (cases e)
  case (Start req idle)
  have eff: "\<not> busy (get_sm (start_which_i2c req) s)"
       "get_sm (\<not> start_which_i2c req) s' = get_sm (\<not> start_which_i2c req) s"
    using sys_step_Start[of s req idle s'] assms(1) Start by simp_all
  have "w = (\<not> start_which_i2c req)" using eff(1) assms(2)
    by (cases w; cases "start_which_i2c req") simp_all
  then show ?thesis using eff(2) assms(2) by simp
next
  case (Interrupt w' fl rx)
  let ?s0 = "set_i2cx w' ((get_i2cx w' s)\<lparr>RXDATA := ucast rx\<rparr>) s"
  have isr: "i2c_isr w' fl ?s0 = Inr s'" using assms(1) Interrupt by (simp add: sys_step_def)
  show ?thesis
  proof (cases "I2C_IF_MSTOP \<in> fl")
    case False
    show ?thesis using i2c_isr_without_mstop[OF isr False, of w] assms(2) by simp
  next
    case True
    note eff = i2c_isr_with_mstop[OF isr True]
    show ?thesis
    proof (cases "w' = w")
      case True
      then show ?thesis using eff Interrupt \<open>I2C_IF_MSTOP \<in> fl\<close> by simp
    next
      case False
      then have "w = (\<not> w')" by (cases w; cases w') simp_all
      then show ?thesis using eff assms(2) by simp
    qed
  qed
qed

lemma run_clears_busy:
  assumes "run s evs = Some (Inr s')" "busy (get_sm w s)" "\<not> busy (get_sm w s')"
  shows "\<exists>pre fl rx post sa sb.
           evs = pre @ Interrupt w fl rx # post \<and> I2C_IF_MSTOP \<in> fl
         \<and> run s pre = Some (Inr sa) \<and> sys_step sa (Interrupt w fl rx) = Some (Inr sb)
         \<and> event_scheduled sb =
             add_scheduled_event (finished_callback (get_sm w s)) (event_scheduled sa)"
  using assms
proof (induction evs arbitrary: s)
  case Nil
  then show ?case by simp
next
  case (Cons e es)
  obtain s1 where step: "sys_step s e = Some (Inr s1)" and rest: "run s1 es = Some (Inr s')"
    using Cons.prems(1) by (auto simp: run_Cons_Inr simp del: run.simps(2))
  from sys_step_while_busy[OF step Cons.prems(2)]
  show ?case
  proof
    assume keep: "busy (get_sm w s1)
                \<and> finished_callback (get_sm w s1) = finished_callback (get_sm w s)"
    obtain pre fl rx post sa sb where
      ih: "es = pre @ Interrupt w fl rx # post" "I2C_IF_MSTOP \<in> fl"
          "run s1 pre = Some (Inr sa)" "sys_step sa (Interrupt w fl rx) = Some (Inr sb)"
          "event_scheduled sb =
             add_scheduled_event (finished_callback (get_sm w s1)) (event_scheduled sa)"
      using Cons.IH[OF rest _ Cons.prems(3)] keep by blast
    have "e # es = (e # pre) @ Interrupt w fl rx # post" using ih(1) by simp
    moreover have "run s (e # pre) = Some (Inr sa)" using step ih(3) by (simp add: run_Cons_Inr del: run.simps(2))
    ultimately show ?thesis using ih(2,4,5) keep by metis
  next
    assume "\<exists>fl rx. e = Interrupt w fl rx \<and> I2C_IF_MSTOP \<in> fl \<and> \<not> busy (get_sm w s1)
             \<and> event_scheduled s1 =
                 add_scheduled_event (finished_callback (get_sm w s)) (event_scheduled s)"
    then obtain fl rx where c: "e = Interrupt w fl rx" "I2C_IF_MSTOP \<in> fl"
        "event_scheduled s1 =
           add_scheduled_event (finished_callback (get_sm w s)) (event_scheduled s)"
      by blast
    have "e # es = [] @ Interrupt w fl rx # es" using c(1) by simp
    moreover have "run s [] = Some (Inr s)" by simp
    moreover have "sys_step s (Interrupt w fl rx) = Some (Inr s1)" using step c(1) by simp
    ultimately show ?thesis using c(2,3) by blast
  qed
qed

lemma second_start_after_completion:
  assumes "run s0 (pre @ Start req1 idle1 # mid @ [Start req2 idle2]) = Some (Inr sf)"
      and "start_which_i2c req2 = start_which_i2c req1"
  shows "\<exists>mid1 fl rx mid2 sa sb.
           mid = mid1 @ Interrupt (start_which_i2c req1) fl rx # mid2 \<and> I2C_IF_MSTOP \<in> fl
         \<and> run s0 (pre @ Start req1 idle1 # mid1) = Some (Inr sa)
         \<and> sys_step sa (Interrupt (start_which_i2c req1) fl rx) = Some (Inr sb)
         \<and> event_scheduled sb =
             add_scheduled_event (start_finished_callback req1) (event_scheduled sa)"
proof -
  let ?w = "start_which_i2c req1"
  obtain sp s1 s2 where
    p: "run s0 pre = Some (Inr sp)" and
    a: "sys_step sp (Start req1 idle1) = Some (Inr s1)" and
    m: "run s1 mid = Some (Inr s2)" and
    b: "sys_step s2 (Start req2 idle2) = Some (Inr sf)"
    using assms(1)
    by (auto simp: run_append_Inr run_Cons_Inr simp del: run.simps(2))
  have busy1: "busy (get_sm ?w s1)" and cb1: "finished_callback (get_sm ?w s1) = start_finished_callback req1"
    using sys_step_Start[OF a] by simp_all
  have free2: "\<not> busy (get_sm ?w s2)"
    using sys_step_Start[OF b] assms(2) by simp
  obtain mid1 fl rx mid2 sa sb where
    c: "mid = mid1 @ Interrupt ?w fl rx # mid2" "I2C_IF_MSTOP \<in> fl"
       "run s1 mid1 = Some (Inr sa)" "sys_step sa (Interrupt ?w fl rx) = Some (Inr sb)"
       "event_scheduled sb =
          add_scheduled_event (finished_callback (get_sm ?w s1)) (event_scheduled sa)"
    using run_clears_busy[OF m busy1 free2] by blast
  have "run s0 (pre @ Start req1 idle1 # mid1) = Some (Inr sa)"
    using p a c(3) by (auto simp: run_append_Inr run_Cons_Inr simp del: run.simps(2))
  then show ?thesis using c(1,2,4,5) cb1 by metis
qed

lemma sys_step_keeps_events:
  assumes "sys_step s e = Some (Inr s')"
      and "\<And>w fl rx. e = Interrupt w fl rx \<Longrightarrow> I2C_IF_MSTOP \<notin> fl"
  shows "event_scheduled s' = event_scheduled s"
proof (cases e)
  case (Start req idle)
  then show ?thesis
    using assms(1) i2c_start_body_effect[of req _ s']
    by (auto simp: sys_step_def i2c_start_Some)
next
  case (Interrupt w fl rx)
  then have "I2C_IF_MSTOP \<notin> fl" using assms(2) by simp
  then show ?thesis
    using assms(1) Interrupt i2c_isr_without_mstop[of w fl _ s' w]
    by (auto simp: sys_step_def)
qed

lemma run_keeps_events:
  assumes "run s evs = Some (Inr s')" "\<forall>e \<in> set evs. no_mstop e"
  shows "event_scheduled s' = event_scheduled s"
  using assms
proof (induction evs arbitrary: s)
  case Nil
  then show ?case by simp
next
  case (Cons e es)
  obtain s1 where step: "sys_step s e = Some (Inr s1)" and rest: "run s1 es = Some (Inr s')"
    using Cons.prems(1) by (auto simp: run_Cons_Inr simp del: run.simps(2))
  have "event_scheduled s1 = event_scheduled s"
    using Cons.prems(2) by (intro sys_step_keeps_events[OF step]) (simp add: no_mstop_def)
  moreover have "event_scheduled s' = event_scheduled s1"
    using Cons.prems(2) by (intro Cons.IH[OF rest]) simp
  ultimately show ?case by simp
qed

text \<open>
  Claim C1. \<open>i2c_start\<close> on a busy bus never leaves its loop (and so writes nothing);
  on a free bus it runs its body, which blocks the I2C sleep mode and sets the busy flag
  before the START command is written: a returned call has the mode blocked, the flag
  set and START followed by the address byte appended to the bus, and a call whose
  block fails halts without them. A step that takes the busy flag of a bus from set to
  clear is an interrupt of that bus with the stop flag, and it has added the
  transaction's completion event to the scheduler. Hence in every run, between a call
  of \<open>i2c_start\<close> and the next call on the same bus that gets to issue its START, there
  is a stop interrupt of that bus that posted the first call's completion event.
\<close>

theorem i2c_start_waits_for_completion:
  "(busy (get_sm (start_which_i2c req) s) \<longrightarrow> i2c_start req s = None)
   \<and> (\<not> busy (get_sm (start_which_i2c req) s) \<longrightarrow> i2c_start req s = Some (i2c_start_body req s))
   \<and> (i2c_start req s = Some (Inr s') \<longrightarrow>
        sleep_block_mode I2C_EM (lowest_energy_mode s) = Inr (lowest_energy_mode s')
      \<and> busy (get_sm (start_which_i2c req) s')
      \<and> writes (get_i2cx (start_which_i2c req) s') =
          writes (get_i2cx (start_which_i2c req) s)
            @ [CMD I2C_CMD_START, TXDATA (push_bit 1 (start_device_address req) OR I2C_W)])
   \<and> (\<not> busy (get_sm (start_which_i2c req) s) \<and> STATE_IDLE (get_i2cx (start_which_i2c req) s)
        \<and> sleep_block_mode I2C_EM (lowest_energy_mode s) = Inl f \<longrightarrow>
        i2c_start req s = Some (Inl f))
   \<and> (sys_step s e = Some (Inr s') \<and> busy (get_sm w s) \<and> \<not> busy (get_sm w s') \<longrightarrow>
        (\<exists>fl rx. e = Interrupt w fl rx \<and> I2C_IF_MSTOP \<in> fl
           \<and> event_scheduled s' =
               add_scheduled_event (finished_callback (get_sm w s)) (event_scheduled s)))
   \<and> (run s0 (pre @ Start req1 idle1 # mid @ [Start req2 idle2]) = Some (Inr sf)
        \<and> start_which_i2c req2 = start_which_i2c req1 \<longrightarrow>
        (\<exists>mid1 fl rx mid2 sa sb.
           mid = mid1 @ Interrupt (start_which_i2c req1) fl rx # mid2 \<and> I2C_IF_MSTOP \<in> fl
         \<and> run s0 (pre @ Start req1 idle1 # mid1) = Some (Inr sa)
         \<and> sys_step sa (Interrupt (start_which_i2c req1) fl rx) = Some (Inr sb)
         \<and> event_scheduled sb =
             add_scheduled_event (start_finished_callback req1) (event_scheduled sa)))"
proof -
  have spin: "busy (get_sm (start_which_i2c req) s) \<longrightarrow> i2c_start req s = None"
    by (simp add: i2c_start_spins)
  have free: "\<not> busy (get_sm (start_which_i2c req) s) \<longrightarrow> i2c_start req s = Some (i2c_start_body req s)"
    by (simp add: i2c_start_Some)
  have order: "i2c_start req s = Some (Inr s') \<longrightarrow>
        sleep_block_mode I2C_EM (lowest_energy_mode s) = Inr (lowest_energy_mode s')
      \<and> busy (get_sm (start_which_i2c req) s')
      \<and> writes (get_i2cx (start_which_i2c req) s') =
          writes (get_i2cx (start_which_i2c req) s)
            @ [CMD I2C_CMD_START, TXDATA (push_bit 1 (start_device_address req) OR I2C_W)]"
    using i2c_start_body_effect[of req s s'] by (simp add: i2c_start_Some)
  have halt: "\<not> busy (get_sm (start_which_i2c req) s) \<and> STATE_IDLE (get_i2cx (start_which_i2c req) s)
        \<and> sleep_block_mode I2C_EM (lowest_energy_mode s) = Inl f \<longrightarrow>
        i2c_start req s = Some (Inl f)"
    by (simp add: i2c_start_Some i2c_start_body_def)
  have clear: "sys_step s e = Some (Inr s') \<and> busy (get_sm w s) \<and> \<not> busy (get_sm w s') \<longrightarrow>
        (\<exists>fl rx. e = Interrupt w fl rx \<and> I2C_IF_MSTOP \<in> fl
           \<and> event_scheduled s' =
               add_scheduled_event (finished_callback (get_sm w s)) (event_scheduled s))"
    using sys_step_while_busy[of s e s' w] by blast
  have runs: "run s0 (pre @ Start req1 idle1 # mid @ [Start req2 idle2]) = Some (Inr sf)
        \<and> start_which_i2c req2 = start_which_i2c req1 \<longrightarrow>
        (\<exists>mid1 fl rx mid2 sa sb.
           mid = mid1 @ Interrupt (start_which_i2c req1) fl rx # mid2 \<and> I2C_IF_MSTOP \<in> fl
         \<and> run s0 (pre @ Start req1 idle1 # mid1) = Some (Inr sa)
         \<and> sys_step sa (Interrupt (start_which_i2c req1) fl rx) = Some (Inr sb)
         \<and> event_scheduled sb =
             add_scheduled_event (start_finished_callback req1) (event_scheduled sa))"
    using second_start_after_completion[of s0 pre req1 idle1 mid req2 idle2 sf] by blast
  show ?thesis using spin free order halt clear runs by (intro conjI)
qed

theorem i2c_start_waits_for_completion_witness:
  "\<exists>sf. run (opened_system (\<lambda>_. 0x3B))
            ([] @ Start write_3B True # write_3B_interrupts @ [Start write_3B True]) = Some (Inr sf)
      \<and> (\<exists>mid1 fl rx mid2 sa sb.
           write_3B_interrupts = mid1 @ Interrupt (start_which_i2c write_3B) fl rx # mid2
         \<and> I2C_IF_MSTOP \<in> fl
         \<and> run (opened_system (\<lambda>_. 0x3B)) ([] @ Start write_3B True # mid1) = Some (Inr sa)
         \<and> sys_step sa (Interrupt (start_which_i2c write_3B) fl rx) = Some (Inr sb)
         \<and> event_scheduled sb =
             add_scheduled_event (start_finished_callback write_3B) (event_scheduled sa))"
proof -
  have "case run (opened_system (\<lambda>_. 0x3B))
               ([] @ Start write_3B True # write_3B_interrupts @ [Start write_3B True]) of
          Some (Inr _) \<Rightarrow> True | _ \<Rightarrow> False"
    by code_simp
  then obtain sf where r: "run (opened_system (\<lambda>_. 0x3B))
            ([] @ Start write_3B True # write_3B_interrupts @ [Start write_3B True]) = Some (Inr sf)"
    by (auto split: option.splits sum.splits)
  show ?thesis
    using r i2c_start_waits_for_completion[where ?s0.0 = "opened_system (\<lambda>_. 0x3B)" and pre = "[]" and ?req1.0 = write_3B
                 and ?idle1.0 = True and mid = write_3B_interrupts and ?req2.0 = write_3B
                 and ?idle2.0 = True and sf = sf]
    by blast
qed

lemma step_start:
  assumes "\<not> busy (get_sm (start_which_i2c req) s)"
      and "sleep_block_mode I2C_EM (lowest_energy_mode s) = Inr tbl"
  shows "\<exists>s'. sys_step s (Start req True) = Some (Inr s')
       \<and> get_sm (start_which_i2c req) s' =
           (get_sm (start_which_i2c req) s)
             \<lparr>busy := True, current_state := initialize,
              which_i2c := start_which_i2c req,
              device_address := start_device_address req,
              register_address := start_register_address req,
              num_bytes := start_num_bytes req,
              finished_callback := start_finished_callback req,
              comm_method := start_comm_method req,
              data := start_data req,
              byte_counter := start_num_bytes req,
              num_register_bytes := start_num_register_bytes req,
              register_byte_counter := start_num_register_bytes req\<rparr>
       \<and> writes (get_i2cx (start_which_i2c req) s') =
           writes (get_i2cx (start_which_i2c req) s)
             @ [CMD I2C_CMD_START, TXDATA (push_bit 1 (start_device_address req) OR I2C_W)]
       \<and> mem s' = mem s \<and> event_scheduled s' = event_scheduled s
       \<and> lowest_energy_mode s' = tbl"
  using assms
  by (simp add: sys_step_def i2c_start_def wait_while_busy_free i2c_start_body_def Let_def
        write_reg_def)

lemma step_ack:
  assumes "i2c_ack_sm (get_sm w s) ((get_i2cx w s)\<lparr>RXDATA := ucast rx\<rparr>) (mem s) = Inr (sm', x')"
  shows "\<exists>s'. sys_step s (Interrupt w {I2C_IF_ACK} rx) = Some (Inr s')
       \<and> get_sm w s' = sm' \<and> get_i2cx w s' = x'
       \<and> mem s' = mem s \<and> event_scheduled s' = event_scheduled s
       \<and> lowest_energy_mode s' = lowest_energy_mode s"
  using assms
  by (simp add: sys_step_def i2c_isr_def isr_ack_def isr_nack_def isr_rxdatav_def isr_mstop_def)

lemma step_mstop:
  assumes "i2c_stop_sm (get_sm w s) (event_scheduled s) (lowest_energy_mode s) = Inr (sm', ev, tbl)"
  shows "\<exists>s'. sys_step s (Interrupt w {I2C_IF_MSTOP} rx) = Some (Inr s')
       \<and> get_sm w s' = sm' \<and> writes (get_i2cx w s') = writes (get_i2cx w s)
       \<and> mem s' = mem s \<and> event_scheduled s' = ev
       \<and> lowest_energy_mode s' = tbl"
  using assms
  by (simp add: sys_step_def i2c_isr_def isr_ack_def isr_nack_def isr_rxdatav_def isr_mstop_def)

lemma select_low_byte: "select_byte v 1 = Inr (v AND 0xFF)"
  by (simp add: select_byte_def)

lemma i2c_em_index: "unat I2C_EM = 2" "unat I2C_EM < MAX_ENERGY_MODES"
  by (simp_all add: I2C_EM_def EM2_def MAX_ENERGY_MODES_def)

text \<open>
  Claim C6. On a free bus, with room for one more block of the I2C sleep mode, the
  1-byte write of \<^verbatim>\<open>0x3B\<close> to the 1-byte register \<^verbatim>\<open>0xE6\<close> of device \<^verbatim>\<open>0x40\<close> puts
  on the bus, in order, START, the bytes \<^verbatim>\<open>0x80\<close>, \<^verbatim>\<open>0xE6\<close>, \<^verbatim>\<open>0x3B\<close> and STOP. Up
  to there the pending events are unchanged (after every prefix of the scenario); the
  stop-detected interrupt then posts the completion event, clears the busy flag and
  releases the sleep-mode block.
\<close>

theorem write_scenario_trace:
  assumes free: "\<not> busy (get_sm w s)"
      and counts: "block_counts (lowest_energy_mode s)"
      and room: "lowest_energy_mode s ! 2 < 4"
      and payload: "mem s a = 0x3B"
  shows "\<exists>s1 s2.
           run s (scenario_A w a cb) = Some (Inr s1)
         \<and> writes (get_i2cx w s1) =
             writes (get_i2cx w s)
               @ [CMD I2C_CMD_START, TXDATA 0x80, TXDATA 0xE6, TXDATA 0x3B, CMD I2C_CMD_STOP]
         \<and> current_state (get_sm w s1) = send_stop \<and> busy (get_sm w s1)
         \<and> get_scheduled_events (event_scheduled s1) = get_scheduled_events (event_scheduled s)
         \<and> (\<forall>k s'. run s (take k (scenario_A w a cb)) = Some (Inr s') \<longrightarrow>
               get_scheduled_events (event_scheduled s') = get_scheduled_events (event_scheduled s))
         \<and> sys_step s1 (Interrupt w {I2C_IF_MSTOP} r4) = Some (Inr s2)
         \<and> get_scheduled_events (event_scheduled s2) = add_scheduled_event cb (event_scheduled s)
         \<and> current_state (get_sm w s2) = end_process \<and> \<not> busy (get_sm w s2)
         \<and> writes (get_i2cx w s2) = writes (get_i2cx w s1)
         \<and> lowest_energy_mode s2 = lowest_energy_mode s"
proof -
  let ?req = "request w I2C_WRITE 0x40 0xE6 1 a 1 cb"
  let ?tbl = "lowest_energy_mode s"
  let ?tbl1 = "?tbl[2 := ?tbl ! 2 + 1]"
  have w: "start_which_i2c ?req = w" by (simp add: request_def)
  have len: "length ?tbl = MAX_ENERGY_MODES" and nonneg: "0 \<le> ?tbl ! 2"
    using counts by (simp_all add: block_counts_def list_all_length MAX_ENERGY_MODES_def)
  have block: "sleep_block_mode I2C_EM ?tbl = Inr ?tbl1"
    using sleep_block_mode_ok[OF len i2c_em_index(2)] room by (simp add: i2c_em_index)
  have unblock: "sleep_unblock_mode I2C_EM ?tbl1 = Inr ?tbl"
    using sleep_unblock_mode_ok[of ?tbl1 I2C_EM] len nonneg
    by (simp add: i2c_em_index MAX_ENERGY_MODES_def)
  obtain sa where a: "sys_step s (Start ?req True) = Some (Inr sa)"
    and sm_a: "get_sm w sa = (get_sm w s)
             \<lparr>busy := True, current_state := initialize, which_i2c := w,
              device_address := 0x40, register_address := 0xE6, num_bytes := 1,
              finished_callback := cb, comm_method := I2C_WRITE, data := a,
              byte_counter := 1, num_register_bytes := 1, register_byte_counter := 1\<rparr>"
    and wr_a: "writes (get_i2cx w sa) = writes (get_i2cx w s) @ [CMD I2C_CMD_START, TXDATA 0x80]"
    and rest_a: "mem sa = mem s" "event_scheduled sa = event_scheduled s"
                "lowest_energy_mode sa = ?tbl1"
    using step_start[of ?req s ?tbl1] free block
    by (auto simp: request_def I2C_W_def)
  have ack1: "i2c_ack_sm (get_sm w sa) ((get_i2cx w sa)\<lparr>RXDATA := ucast (0 :: 8 word)\<rparr>) (mem sa)
      = Inr ((get_sm w sa)\<lparr>current_state := send_register, register_byte_counter := 0\<rparr>,
             (get_i2cx w sa)\<lparr>RXDATA := ucast (0 :: 8 word), writes := writes (get_i2cx w sa) @ [TXDATA 0xE6]\<rparr>)"
    by (simp add: i2c_ack_sm_def sm_a select_low_byte write_reg_def Let_def)
  obtain sb where b: "sys_step sa (Interrupt w {I2C_IF_ACK} 0) = Some (Inr sb)"
    and sm_b: "get_sm w sb = (get_sm w sa)\<lparr>current_state := send_register, register_byte_counter := 0\<rparr>"
    and wr_b: "writes (get_i2cx w sb) = writes (get_i2cx w sa) @ [TXDATA 0xE6]"
    and rest_b: "mem sb = mem sa" "event_scheduled sb = event_scheduled sa"
                "lowest_energy_mode sb = lowest_energy_mode sa"
    using step_ack[OF ack1] by auto
  have ack2: "i2c_ack_sm (get_sm w sb) ((get_i2cx w sb)\<lparr>RXDATA := ucast (0 :: 8 word)\<rparr>) (mem sb)
      = Inr ((get_sm w sb)\<lparr>current_state := write_data, byte_counter := 0\<rparr>,
             (get_i2cx w sb)\<lparr>RXDATA := ucast (0 :: 8 word), writes := writes (get_i2cx w sb) @ [TXDATA 0x3B]\<rparr>)"
    by (simp add: i2c_ack_sm_def send_payload_byte_def sm_b sm_a rest_b rest_a payload
          select_low_byte write_reg_def)
  obtain sc where c: "sys_step sb (Interrupt w {I2C_IF_ACK} 0) = Some (Inr sc)"
    and sm_c: "get_sm w sc = (get_sm w sb)\<lparr>current_state := write_data, byte_counter := 0\<rparr>"
    and wr_c: "writes (get_i2cx w sc) = writes (get_i2cx w sb) @ [TXDATA 0x3B]"
    and rest_c: "mem sc = mem sb" "event_scheduled sc = event_scheduled sb"
                "lowest_energy_mode sc = lowest_energy_mode sb"
    using step_ack[OF ack2] by auto
  have ack3: "i2c_ack_sm (get_sm w sc) ((get_i2cx w sc)\<lparr>RXDATA := ucast (0 :: 8 word)\<rparr>) (mem sc)
      = Inr ((get_sm w sc)\<lparr>current_state := send_stop\<rparr>,
             (get_i2cx w sc)\<lparr>RXDATA := ucast (0 :: 8 word), writes := writes (get_i2cx w sc) @ [CMD I2C_CMD_STOP]\<rparr>)"
    by (simp add: i2c_ack_sm_def sm_c sm_b sm_a write_reg_def)
  obtain sd where d: "sys_step sc (Interrupt w {I2C_IF_ACK} 0) = Some (Inr sd)"
    and sm_d: "get_sm w sd = (get_sm w sc)\<lparr>current_state := send_stop\<rparr>"
    and wr_d: "writes (get_i2cx w sd) = writes (get_i2cx w sc) @ [CMD I2C_CMD_STOP]"
    and rest_d: "mem sd = mem sc" "event_scheduled sd = event_scheduled sc"
                "lowest_energy_mode sd = lowest_energy_mode sc"
    using step_ack[OF ack3] by auto
  have stop: "i2c_stop_sm (get_sm w sd) (event_scheduled sd) (lowest_energy_mode sd)
      = Inr ((get_sm w sd)\<lparr>current_state := end_process, busy := False\<rparr>,
             add_scheduled_event cb (event_scheduled s), ?tbl)"
    by (simp add: i2c_stop_sm_def sm_d sm_c sm_b sm_a rest_d rest_c rest_b rest_a unblock Let_def)
  obtain se where e: "sys_step sd (Interrupt w {I2C_IF_MSTOP} r4) = Some (Inr se)"
    and sm_e: "get_sm w se = (get_sm w sd)\<lparr>current_state := end_process, busy := False\<rparr>"
    and wr_e: "writes (get_i2cx w se) = writes (get_i2cx w sd)"
    and rest_e: "event_scheduled se = add_scheduled_event cb (event_scheduled s)"
                "lowest_energy_mode se = ?tbl"
    using step_mstop[OF stop] by auto
  have run4: "run s (scenario_A w a cb) = Some (Inr sd)"
    by (simp add: scenario_A_def a b c d)
  have prefixes: "get_scheduled_events (event_scheduled s') = get_scheduled_events (event_scheduled s)"
    if "run s (take k (scenario_A w a cb)) = Some (Inr s')" for k s'
  proof -
    have "\<forall>e \<in> set (scenario_A w a cb). no_mstop e"
      by (simp add: scenario_A_def no_mstop_def)
    then have "\<forall>e \<in> set (take k (scenario_A w a cb)). no_mstop e"
      using set_take_subset[of k "scenario_A w a cb"] by blast
    then show ?thesis using run_keeps_events[OF that] by simp
  qed
  have wr: "writes (get_i2cx w sd) = writes (get_i2cx w s)
               @ [CMD I2C_CMD_START, TXDATA 0x80, TXDATA 0xE6, TXDATA 0x3B, CMD I2C_CMD_STOP]"
    by (simp add: wr_d wr_c wr_b wr_a)
  have st_d: "current_state (get_sm w sd) = send_stop" "busy (get_sm w sd)"
    by (simp_all add: sm_d sm_c sm_b sm_a)
  have ev_d: "event_scheduled sd = event_scheduled s"
    by (simp add: rest_d rest_c rest_b rest_a)
  have st_e: "current_state (get_sm w se) = end_process" "\<not> busy (get_sm w se)"
    by (simp_all add: sm_e)
  show ?thesis
    using run4 wr st_d ev_d e rest_e st_e wr_e prefixes
    by (intro exI[of _ sd] exI[of _ se]) (simp add: get_scheduled_events_def)
qed

theorem write_scenario_trace_witness:
  "\<not> busy (get_sm False (opened_system (\<lambda>_. 0x3B)))
   \<and> block_counts (lowest_energy_mode (opened_system (\<lambda>_. 0x3B)))
   \<and> lowest_energy_mode (opened_system (\<lambda>_. 0x3B)) ! 2 < 4
   \<and> mem (opened_system (\<lambda>_. 0x3B)) 0 = 0x3B
   \<and> (\<exists>s1 s2.
           run (opened_system (\<lambda>_. 0x3B)) (scenario_A False 0 0x100) = Some (Inr s1)
         \<and> writes (get_i2cx False s1) =
             [CMD I2C_CMD_START, TXDATA 0x80, TXDATA 0xE6, TXDATA 0x3B, CMD I2C_CMD_STOP]
         \<and> get_scheduled_events (event_scheduled s1) = 0
         \<and> sys_step s1 (Interrupt False {I2C_IF_MSTOP} 0) = Some (Inr s2)
         \<and> get_scheduled_events (event_scheduled s2) = 0x100
         \<and> \<not> busy (get_sm False s2))"
proof -
  let ?s = "opened_system (\<lambda>_. 0x3B)"
  have h1: "\<not> busy (get_sm False ?s)"
    by (simp add: opened_system_def get_sm_def zero_sm_def)
  have h2: "block_counts (lowest_energy_mode ?s)"
    by (simp add: opened_system_def block_counts_def MAX_ENERGY_MODES_def)
  have h3: "lowest_energy_mode ?s ! 2 < 4" by (simp add: opened_system_def)
  have h4: "mem ?s 0 = 0x3B" by (simp add: opened_system_def)
  have w0: "writes (get_i2cx False ?s) = []"
    by (simp add: opened_system_def get_i2cx_def quiet_bus_def)
  have e0: "event_scheduled ?s = 0" by (simp add: opened_system_def)
  obtain s1 s2 where
    r: "run ?s (scenario_A False 0 0x100) = Some (Inr s1)"
       "writes (get_i2cx False s1) = writes (get_i2cx False ?s)
          @ [CMD I2C_CMD_START, TXDATA 0x80, TXDATA 0xE6, TXDATA 0x3B, CMD I2C_CMD_STOP]"
       "get_scheduled_events (event_scheduled s1) = get_scheduled_events (event_scheduled ?s)"
       "sys_step s1 (Interrupt False {I2C_IF_MSTOP} 0) = Some (Inr s2)"
       "get_scheduled_events (event_scheduled s2) = add_scheduled_event 0x100 (event_scheduled ?s)"
       "\<not> busy (get_sm False s2)"
    using write_scenario_trace[OF h1 h2 h3 h4, of "0x100" 0] by blast
  have "writes (get_i2cx False s1) =
          [CMD I2C_CMD_START, TXDATA 0x80, TXDATA 0xE6, TXDATA 0x3B, CMD I2C_CMD_STOP]"
    using r(2) by (simp add: w0)
  moreover have "get_scheduled_events (event_scheduled s1) = 0"
    using r(3) by (simp add: e0 get_scheduled_events_def)
  moreover have "get_scheduled_events (event_scheduled s2) = 0x100"
    using r(5) by (simp add: e0 add_scheduled_event_def)
  ultimately show ?thesis using h1 h2 h3 h4 r(1,4,6) by blast
qed

end
